theory Spec2Isabelle
  imports Complex_Main "HOL-Library.Signed_Division" "HOL-Library.Word"
begin

section \<open>The indicator led controller of hybris.c\<close>

text \<open>
  The embedding follows the led part of \<^verbatim>\<open>hybris.c\<close>: the request model
  (\<^verbatim>\<open>led_request_t\<close> and its helpers), the ramp generator, the three timer
  callbacks, \<^verbatim>\<open>led_ctrl_start\<close> and the public indicator functions.

  A C \<^verbatim>\<open>int\<close> is modelled by \<^typ>\<open>int\<close>; C's \<^verbatim>\<open>/\<close> truncates towards zero
  and is the operation \<open>sdiv\<close> of the library. The arithmetic of the source agrees
  with this model as long as no intermediate value leaves the range of a 32 bit
  \<^verbatim>\<open>int\<close> (signed overflow is undefined in C); the public entry points clamp
  channels to 0..255, the level to 1..255 and timings to 0..60000, far inside that
  range, see \<open>led_ctrl_generate_ramp_in_int_range\<close> and
  \<open>led_util_scale_value_in_int_range\<close>.
\<close>

subsection \<open>Constants\<close>

definition LED_CTRL_KERNEL_DELAY :: int where
  "LED_CTRL_KERNEL_DELAY = 10"

definition LED_CTRL_BREATHING_DELAY :: int where
  "LED_CTRL_BREATHING_DELAY = 20"

definition LED_CTRL_MAX_STEPS :: int where
  "LED_CTRL_MAX_STEPS = 256"

definition LED_CTRL_MIN_STEPS :: int where
  "LED_CTRL_MIN_STEPS = 7"

definition INT_MIN :: int where
  "INT_MIN = - (2 ^ 31)"

definition INT_MAX :: int where
  "INT_MAX = 2 ^ 31 - 1"

definition in_int_range :: "int \<Rightarrow> bool" where
  "in_int_range x \<longleftrightarrow> INT_MIN \<le> x \<and> x \<le> INT_MAX"

subsection \<open>Generic led utils\<close>

text \<open>\<^verbatim>\<open>led_util_scale_value\<close>: scale a value from 0...255 to the range 0...max.\<close>

definition led_util_scale_value :: "int \<Rightarrow> int \<Rightarrow> int" where
  "led_util_scale_value inp maxv =
     (let out = (inp * maxv + 128) sdiv 255
      in if out < 0 then 0 else if out < maxv then out else maxv)"

subsection \<open>Led requests\<close>

record led_request_t =
  r :: int
  g :: int
  b :: int
  on :: int
  off :: int
  level :: int
  breathe :: bool

definition led_request_has_equal_timing :: "led_request_t \<Rightarrow> led_request_t \<Rightarrow> bool" where
  "led_request_has_equal_timing self that \<longleftrightarrow> on self = on that \<and> off self = off that"

definition led_request_is_equal :: "led_request_t \<Rightarrow> led_request_t \<Rightarrow> bool" where
  "led_request_is_equal self that \<longleftrightarrow>
     r self = r that \<and> g self = g that \<and> b self = b that \<and>
     on self = on that \<and> off self = off that \<and>
     level self = level that \<and> breathe self = breathe that"

definition led_request_has_color :: "led_request_t \<Rightarrow> bool" where
  "led_request_has_color self \<longleftrightarrow> r self > 0 \<or> g self > 0 \<or> b self > 0"

text \<open>
  \<^verbatim>\<open>led_request_sanitize\<close> updates the request in place; the model returns the
  updated request. The conditions are read before the assignments of their branch.
\<close>

definition led_request_sanitize :: "led_request_t \<Rightarrow> led_request_t" where
  "led_request_sanitize self =
     (let min_period = LED_CTRL_BREATHING_DELAY * LED_CTRL_MIN_STEPS
      in if \<not> led_request_has_color self
         then self\<lparr>on := 0, off := 0, breathe := False\<rparr>
         else if on self \<le> 0 \<or> off self \<le> 0
         then self\<lparr>on := 0, off := 0, breathe := False\<rparr>
         else if on self < min_period \<or> off self < min_period
         then self\<lparr>breathe := False\<rparr>
         else self)"

datatype led_style_t = STYLE_OFF | STYLE_STATIC | STYLE_BLINK | STYLE_BREATH

definition led_request_get_style :: "led_request_t \<Rightarrow> led_style_t" where
  "led_request_get_style self =
     (if \<not> led_request_has_color self then STYLE_OFF
      else if on self \<le> 0 \<or> off self \<le> 0 then STYLE_STATIC
      else if breathe self then STYLE_BREATH
      else STYLE_BLINK)"


subsection \<open>Backend, timers and the controller state\<close>

text \<open>
  The control object \<^verbatim>\<open>led_control\<close> holds the callbacks of the probed backend:
  none after \<^verbatim>\<open>led_control_init\<close>, those of the vanilla backend (no enable
  callback) or those of the hammerhead backend. The writes the callbacks make to the
  sysfs files are recorded in a log, one entry for each callback invoked.
\<close>

datatype led_backend = Vanilla | Hammerhead

datatype hw_write = HW_ENABLE bool | HW_BLINK int int | HW_VALUE int int int

text \<open>
  The glib main loop: \<^verbatim>\<open>g_timeout_add\<close> attaches a source (id, interval,
  callback) and returns its id, which is never 0; \<^verbatim>\<open>g_source_remove\<close> detaches
  the source with the id given. A pending source may be dispatched at any time: the
  model does not measure time.
\<close>

datatype timer_cb = CB_STOP | CB_STATIC | CB_STEP

type_synonym glib_source = "nat \<times> int \<times> timer_cb"

text \<open>
  The intensity curve \<^verbatim>\<open>led_ctrl_breathe\<close>. The array \<^verbatim>\<open>value\<close> of
  \<^verbatim>\<open>LED_CTRL_MAX_STEPS\<close> bytes is a function of the index; every access checks
  the index against the size of the array.
\<close>

record led_ctrl_breathe_t =
  step :: nat
  steps :: nat
  delay :: int
  value_arr :: "nat \<Rightarrow> 8 word"

record led_state =
  led_ctrl_breathe :: led_ctrl_breathe_t
  led_ctrl_uses_sysfs :: bool
  led_ctrl_curr :: led_request_t
  led_control :: "led_backend option"
  led_ctrl_stop_id :: nat
  led_ctrl_step_id :: nat
  reset_blinking :: bool
  init_done :: bool
  init_ack :: bool
  dev_indicator :: bool
  glib_sources :: "glib_source list"
  glib_next_id :: nat
  hw_log :: "hw_write list"

text \<open>The static initializers of the source.\<close>

definition led_ctrl_breathe_init :: led_ctrl_breathe_t where
  "led_ctrl_breathe_init = \<lparr>step = 0, steps = 0, delay = 0, value_arr = (\<lambda>_. 0)\<rparr>"

definition led_ctrl_curr_init :: led_request_t where
  "led_ctrl_curr_init =
     \<lparr>r = - 1, g = - 1, b = - 1, on = 0, off = 0, level = 255, breathe = False\<rparr>"

definition led_state_init :: led_state where
  "led_state_init =
     \<lparr>led_ctrl_breathe = led_ctrl_breathe_init,
      led_ctrl_uses_sysfs = False,
      led_ctrl_curr = led_ctrl_curr_init,
      led_control = None,
      led_ctrl_stop_id = 0,
      led_ctrl_step_id = 0,
      reset_blinking = True,
      init_done = False,
      init_ack = False,
      dev_indicator = False,
      glib_sources = [],
      glib_next_id = 1,
      hw_log = []\<rparr>"

definition g_timeout_add :: "int \<Rightarrow> timer_cb \<Rightarrow> led_state \<Rightarrow> nat \<times> led_state" where
  "g_timeout_add interval cb s =
     (glib_next_id s,
      s\<lparr>glib_sources := glib_sources s @ [(glib_next_id s, interval, cb)],
        glib_next_id := Suc (glib_next_id s)\<rparr>)"

definition g_source_remove :: "nat \<Rightarrow> led_state \<Rightarrow> led_state" where
  "g_source_remove tag s =
     s\<lparr>glib_sources := filter (\<lambda>src. fst src \<noteq> tag) (glib_sources s)\<rparr>"

subsection \<open>RGB led control: generic frontend\<close>

definition led_control_enable :: "bool \<Rightarrow> led_state \<Rightarrow> led_state" where
  "led_control_enable enable s =
     (case led_control s of
        Some Hammerhead \<Rightarrow> s\<lparr>hw_log := hw_log s @ [HW_ENABLE enable]\<rparr>
      | _ \<Rightarrow> s)"

definition led_control_blink :: "int \<Rightarrow> int \<Rightarrow> led_state \<Rightarrow> led_state" where
  "led_control_blink on_ms off_ms s =
     (case led_control s of
        None \<Rightarrow> s
      | Some _ \<Rightarrow>
          (let s1 = led_control_enable False s
           in s1\<lparr>hw_log := hw_log s1 @ [HW_BLINK on_ms off_ms]\<rparr>))"

definition led_control_value :: "int \<Rightarrow> int \<Rightarrow> int \<Rightarrow> led_state \<Rightarrow> led_state" where
  "led_control_value rv gv bv s =
     (case led_control s of
        None \<Rightarrow> s
      | Some _ \<Rightarrow>
          (let s1 = led_control_enable False s;
               s2 = s1\<lparr>hw_log := hw_log s1 @ [HW_VALUE rv gv bv]\<rparr>
           in led_control_enable True s2))"

definition led_control_close :: "led_state \<Rightarrow> led_state" where
  "led_control_close s = s\<lparr>led_control := None\<rparr>"

definition led_ctrl_set_rgb_blink :: "int \<Rightarrow> int \<Rightarrow> led_state \<Rightarrow> led_state" where
  "led_ctrl_set_rgb_blink on_ms off_ms s = led_control_blink on_ms off_ms s"

definition led_ctrl_set_rgb_value :: "int \<Rightarrow> int \<Rightarrow> int \<Rightarrow> led_state \<Rightarrow> led_state" where
  "led_ctrl_set_rgb_value rv gv bv s = led_control_value rv gv bv s"

subsection \<open>The intensity curve\<close>

text \<open>
  The samples are computed in the source with \<^verbatim>\<open>sinf\<close> on floats,
  \<^verbatim>\<open>(uint8_t)(sinf(a) * 255.0f)\<close>, where \<^verbatim>\<open>a = i * m_pi_2 / steps_on\<close> on the
  rising edge and \<^verbatim>\<open>a = m_pi_2 + i * m_pi_2 / steps_off\<close> on the falling edge. The
  float computation is not modelled: the byte stored for step \<open>i\<close> of an edge of
  \<open>n\<close> steps is given by a parameter, \<open>sample falling i n\<close>.
\<close>

type_synonym sample_fn = "bool \<Rightarrow> int \<Rightarrow> int \<Rightarrow> 8 word"

text \<open>
  One of the two loops \<^verbatim>\<open>for( int i = 0; i < n; ++i ) value[k++] = ...\<close> of
  \<^verbatim>\<open>led_ctrl_generate_ramp\<close>, from \<open>i\<close> on. A store past the end of the array is
  undefined in C: the model stops with \<open>None\<close>.
\<close>

function ramp_loop ::
  "(int \<Rightarrow> 8 word) \<Rightarrow> int \<Rightarrow> int \<Rightarrow> (nat \<Rightarrow> 8 word) \<Rightarrow> nat \<Rightarrow> ((nat \<Rightarrow> 8 word) \<times> nat) option"
where
  "ramp_loop f i n v k =
     (if i < n
      then (if int k < LED_CTRL_MAX_STEPS
            then ramp_loop f (i + 1) n (v(k := f i)) (Suc k)
            else None)
      else Some (v, k))"
  by pat_completeness auto
termination
  by (relation "measure (\<lambda>(f, i, n, v, k). nat (n - i))") auto

declare ramp_loop.simps [simp del]

text \<open>
  \<^verbatim>\<open>led_ctrl_generate_ramp\<close>. The step delay \<open>s\<close> is at least 20, so the first
  two divisions are defined; the division by \<open>t\<close> is not when \<open>t = 0\<close>, and the model
  stops there.
\<close>

definition led_ctrl_generate_ramp ::
  "sample_fn \<Rightarrow> int \<Rightarrow> int \<Rightarrow> led_ctrl_breathe_t \<Rightarrow> led_ctrl_breathe_t option"
where
  "led_ctrl_generate_ramp sample ms_on ms_off br =
     (let t = ms_on + ms_off;
          s0 = (t + LED_CTRL_MAX_STEPS - 1) sdiv LED_CTRL_MAX_STEPS;
          s = (if s0 < LED_CTRL_BREATHING_DELAY then LED_CTRL_BREATHING_DELAY else s0);
          n = (t + s - 1) sdiv s
      in if t = 0 then None
         else
           (let steps_on = (n * ms_on + t sdiv 2) sdiv t;
                steps_off = n - steps_on
            in case ramp_loop (\<lambda>i. sample False i steps_on) 0 steps_on (value_arr br) 0 of
                 None \<Rightarrow> None
               | Some (v1, k1) \<Rightarrow>
                   (case ramp_loop (\<lambda>i. sample True i steps_off) 0 steps_off v1 k1 of
                      None \<Rightarrow> None
                    | Some (v2, k2) \<Rightarrow>
                        Some (br\<lparr>delay := s, steps := k2, value_arr := v2\<rparr>))))"

subsection \<open>Timer callbacks\<close>

text \<open>A callback returns the \<^verbatim>\<open>gboolean\<close> of the source and the new state.\<close>

definition led_ctrl_static_cb :: "led_state \<Rightarrow> bool \<times> led_state" where
  "led_ctrl_static_cb s =
     (if led_ctrl_step_id s = 0 then (False, s)
      else
        (let s1 = s\<lparr>led_ctrl_step_id := 0\<rparr>;
             l = level (led_ctrl_curr s1);
             rv = led_util_scale_value (r (led_ctrl_curr s1)) l;
             gv = led_util_scale_value (g (led_ctrl_curr s1)) l;
             bv = led_util_scale_value (b (led_ctrl_curr s1)) l;
             s2 = led_ctrl_set_rgb_blink (on (led_ctrl_curr s1)) (off (led_ctrl_curr s1)) s1
         in (False, led_ctrl_set_rgb_value rv gv bv s2)))"

text \<open>
  \<^verbatim>\<open>led_ctrl_step_cb\<close> reads \<^verbatim>\<open>value[i]\<close> with \<^verbatim>\<open>i = step++\<close>, after it has
  reset a step index that is not below the step count. A read past the end of the
  array is undefined in C: the model stops with \<open>None\<close>.
\<close>

definition led_ctrl_step_cb :: "led_state \<Rightarrow> (bool \<times> led_state) option" where
  "led_ctrl_step_cb s =
     (if led_ctrl_step_id s = 0 then Some (False, s)
      else
        (let br = led_ctrl_breathe s;
             br1 = (if step br \<ge> steps br then br\<lparr>step := 0\<rparr> else br);
             l = level (led_ctrl_curr s);
             rv = led_util_scale_value (r (led_ctrl_curr s)) l;
             gv = led_util_scale_value (g (led_ctrl_curr s)) l;
             bv = led_util_scale_value (b (led_ctrl_curr s)) l;
             i = step br1;
             br2 = br1\<lparr>step := Suc i\<rparr>
         in if int i < LED_CTRL_MAX_STEPS
            then
              (let v = uint (value_arr br2 i);
                   s1 = s\<lparr>led_ctrl_breathe := br2\<rparr>
               in Some (led_ctrl_step_id s1 \<noteq> 0,
                        led_ctrl_set_rgb_value (led_util_scale_value rv v)
                          (led_util_scale_value gv v) (led_util_scale_value bv v) s1))
            else None))"

definition led_ctrl_stop_cb :: "led_state \<Rightarrow> bool \<times> led_state" where
  "led_ctrl_stop_cb s =
     (if led_ctrl_stop_id s = 0 then (False, s)
      else
        (let s1 = s\<lparr>led_ctrl_stop_id := 0\<rparr>;
             s2 = (if reset_blinking s1 then led_ctrl_set_rgb_blink 0 0 s1 else s1);
             s3 = (if \<not> led_request_has_color (led_ctrl_curr s2)
                   then s2\<lparr>reset_blinking := True\<rparr>
                   else if delay (led_ctrl_breathe s2) > 0
                   then (let (tag, s') = g_timeout_add (delay (led_ctrl_breathe s2)) CB_STEP s2
                         in s'\<lparr>led_ctrl_step_id := tag\<rparr>)
                   else (let (tag, s') = g_timeout_add LED_CTRL_KERNEL_DELAY CB_STATIC s2
                         in s'\<lparr>led_ctrl_step_id := tag\<rparr>));
             s4 = (if reset_blinking s3
                   then (led_ctrl_set_rgb_value 0 0 0 s3)\<lparr>reset_blinking := False\<rparr>
                   else s3)
         in (False, s4)))"

subsection \<open>Starting a pattern\<close>

definition led_ctrl_start :: "sample_fn \<Rightarrow> led_request_t \<Rightarrow> led_state \<Rightarrow> led_state option" where
  "led_ctrl_start sample next s =
     (let work = led_request_sanitize next
      in if led_request_is_equal (led_ctrl_curr s) work then Some s
         else
           (let old_style = led_request_get_style (led_ctrl_curr s);
                new_style = led_request_get_style work;
                restart = (if old_style = STYLE_BREATH \<and> new_style = STYLE_BREATH \<and>
                              led_request_has_equal_timing (led_ctrl_curr s) work
                           then False else True);
                s1 = s\<lparr>led_ctrl_curr := work\<rparr>
            in if restart
               then
                 (let s2 = (if led_ctrl_step_id s1 \<noteq> 0
                            then (g_source_remove (led_ctrl_step_id s1) s1)\<lparr>led_ctrl_step_id := 0\<rparr>
                            else s1);
                      br0 = (led_ctrl_breathe s2)\<lparr>delay := 0\<rparr>
                  in case (if new_style = STYLE_BREATH
                           then led_ctrl_generate_ramp sample (on work) (off work) br0
                           else Some br0) of
                       None \<Rightarrow> None
                     | Some br \<Rightarrow>
                         (let s3 = s2\<lparr>led_ctrl_breathe := br\<rparr>
                          in if led_ctrl_stop_id s3 = 0
                             then
                               (let s4 = s3\<lparr>reset_blinking :=
                                            (old_style = STYLE_BLINK \<or> new_style = STYLE_BLINK)\<rparr>;
                                    (tag, s5) = g_timeout_add LED_CTRL_KERNEL_DELAY CB_STOP s4
                                in Some (s5\<lparr>led_ctrl_stop_id := tag\<rparr>))
                             else Some s3))
               else Some s1))"

subsection \<open>The indicator led functions of the plugin\<close>

text \<open>
  What the functions get from outside the controller: the backend found by
  \<^verbatim>\<open>led_control_probe\<close>, and for the fallback to the lights module of libhybris
  whether the module loads, whether the indicator device opens and what
  \<^verbatim>\<open>set_light\<close> returns.
\<close>

record hal_env =
  env_probe :: "led_backend option"
  env_modlights_load :: bool
  env_device_open :: bool
  env_set_light :: int

definition mce_hybris_indicator_init ::
  "hal_env \<Rightarrow> sample_fn \<Rightarrow> led_state \<Rightarrow> (bool \<times> led_state) option"
where
  "mce_hybris_indicator_init env sample s =
     (if init_done s then Some (init_ack s, s)
      else
        (let s1 = s\<lparr>init_done := True,
                     led_control := env_probe env,
                     led_ctrl_uses_sysfs := (env_probe env \<noteq> None)\<rparr>
         in if led_ctrl_uses_sysfs s1
            then
              (case led_ctrl_start sample ((led_ctrl_curr s1)\<lparr>r := 0, g := 0, b := 0\<rparr>) s1 of
                 None \<Rightarrow> None
               | Some s2 \<Rightarrow> Some (True, s2\<lparr>init_ack := True\<rparr>))
            else if \<not> env_modlights_load env then Some (init_ack s1, s1)
            else if \<not> env_device_open env then Some (init_ack s1, s1)
            else Some (True, s1\<lparr>dev_indicator := True, init_ack := True\<rparr>)))"

definition mce_hybris_indicator_quit :: "led_state \<Rightarrow> led_state" where
  "mce_hybris_indicator_quit s =
     (let s1 = (if dev_indicator s then s\<lparr>dev_indicator := False\<rparr> else s)
      in if led_ctrl_uses_sysfs s1
         then
           (let s2 = (if led_ctrl_step_id s1 \<noteq> 0
                      then (g_source_remove (led_ctrl_step_id s1) s1)\<lparr>led_ctrl_step_id := 0\<rparr>
                      else s1);
                s3 = (if led_ctrl_stop_id s2 \<noteq> 0
                      then (g_source_remove (led_ctrl_stop_id s2) s2)\<lparr>led_ctrl_stop_id := 0\<rparr>
                      else s2);
                s4 = led_ctrl_set_rgb_blink 0 0 s3;
                s5 = led_ctrl_set_rgb_value 0 0 0 s4
            in led_control_close s5)
         else s1)"

definition clamp_to_range :: "int \<Rightarrow> int \<Rightarrow> int \<Rightarrow> int" where
  "clamp_to_range lo hi val = (if val \<le> lo then lo else if val \<le> hi then val else hi)"

text \<open>
  \<^verbatim>\<open>mce_hybris_indicator_set_pattern\<close>. On the fallback path the source calls
  \<^verbatim>\<open>dev_indicator->set_light\<close> after a successful init; with a null
  \<^verbatim>\<open>dev_indicator\<close> the model stops.
\<close>

definition mce_hybris_indicator_set_pattern ::
  "hal_env \<Rightarrow> sample_fn \<Rightarrow> int \<Rightarrow> int \<Rightarrow> int \<Rightarrow> int \<Rightarrow> int \<Rightarrow> led_state \<Rightarrow>
     (bool \<times> led_state) option"
where
  "mce_hybris_indicator_set_pattern env sample r0 g0 b0 ms_on0 ms_off0 s =
     (let ms_on1 = clamp_to_range 0 60000 ms_on0;
          ms_off1 = clamp_to_range 0 60000 ms_off0;
          ms_on = (if ms_on1 < 50 \<or> ms_off1 < 50 then 0 else ms_on1);
          ms_off = (if ms_on1 < 50 \<or> ms_off1 < 50 then 0 else ms_off1);
          rv = clamp_to_range 0 255 r0;
          gv = clamp_to_range 0 255 g0;
          bv = clamp_to_range 0 255 b0
      in if led_ctrl_uses_sysfs s
         then
           (let req = (led_ctrl_curr s)\<lparr>r := rv, g := gv, b := bv, on := ms_on, off := ms_off\<rparr>
            in case led_ctrl_start sample req s of
                 None \<Rightarrow> None
               | Some s1 \<Rightarrow> Some (True, s1))
         else
           (case mce_hybris_indicator_init env sample s of
              None \<Rightarrow> None
            | Some (ack, s1) \<Rightarrow>
                if \<not> ack then Some (False, s1)
                else if \<not> dev_indicator s1 then None
                else if env_set_light env < 0 then Some (False, s1)
                else Some (True, s1)))"

definition mce_hybris_indicator_enable_breathing ::
  "sample_fn \<Rightarrow> bool \<Rightarrow> led_state \<Rightarrow> led_state option"
where
  "mce_hybris_indicator_enable_breathing sample enable s =
     (if \<not> led_ctrl_uses_sysfs s then Some s
      else led_ctrl_start sample ((led_ctrl_curr s)\<lparr>breathe := enable\<rparr>) s)"

definition mce_hybris_indicator_set_brightness ::
  "sample_fn \<Rightarrow> int \<Rightarrow> led_state \<Rightarrow> (bool \<times> led_state) option"
where
  "mce_hybris_indicator_set_brightness sample lvl s =
     (if \<not> led_ctrl_uses_sysfs s then Some (True, s)
      else
        (case led_ctrl_start sample ((led_ctrl_curr s)\<lparr>level := clamp_to_range 1 255 lvl\<rparr>) s of
           None \<Rightarrow> None
         | Some s1 \<Rightarrow> Some (True, s1)))"

subsection \<open>Runs of the controller\<close>

text \<open>
  The main loop dispatches a pending source: it calls the callback and detaches the
  source when the callback returns \<^verbatim>\<open>FALSE\<close>. A tag with no pending source
  dispatches nothing.
\<close>

definition run_cb :: "timer_cb \<Rightarrow> led_state \<Rightarrow> (bool \<times> led_state) option" where
  "run_cb cb s =
     (case cb of
        CB_STOP \<Rightarrow> Some (led_ctrl_stop_cb s)
      | CB_STATIC \<Rightarrow> Some (led_ctrl_static_cb s)
      | CB_STEP \<Rightarrow> led_ctrl_step_cb s)"

definition glib_dispatch :: "nat \<Rightarrow> led_state \<Rightarrow> led_state option" where
  "glib_dispatch tag s =
     (case find (\<lambda>src. fst src = tag) (glib_sources s) of
        None \<Rightarrow> Some s
      | Some (_, _, cb) \<Rightarrow>
          (case run_cb cb s of
             None \<Rightarrow> None
           | Some (again, s1) \<Rightarrow> Some (if again then s1 else g_source_remove tag s1)))"

datatype led_event =
    EV_init hal_env
  | EV_quit
  | EV_set_pattern hal_env int int int int int
  | EV_enable_breathing bool
  | EV_set_brightness int
  | EV_timeout nat

fun led_event_step :: "sample_fn \<Rightarrow> led_event \<Rightarrow> led_state \<Rightarrow> led_state option" where
  "led_event_step sample (EV_init env) s =
     map_option snd (mce_hybris_indicator_init env sample s)"
| "led_event_step sample EV_quit s = Some (mce_hybris_indicator_quit s)"
| "led_event_step sample (EV_set_pattern env r0 g0 b0 ms_on ms_off) s =
     map_option snd (mce_hybris_indicator_set_pattern env sample r0 g0 b0 ms_on ms_off s)"
| "led_event_step sample (EV_enable_breathing enable) s =
     mce_hybris_indicator_enable_breathing sample enable s"
| "led_event_step sample (EV_set_brightness lvl) s =
     map_option snd (mce_hybris_indicator_set_brightness sample lvl s)"
| "led_event_step sample (EV_timeout tag) s = glib_dispatch tag s"

fun led_run :: "sample_fn \<Rightarrow> led_state \<Rightarrow> led_event list \<Rightarrow> led_state option" where
  "led_run sample s [] = Some s"
| "led_run sample s (ev # evs) =
     (case led_event_step sample ev s of
        None \<Rightarrow> None
      | Some s1 \<Rightarrow> led_run sample s1 evs)"

subsection \<open>The ramp invariant and example runs\<close>

text \<open>
  The invariant of the intensity curve: the step count fits the array, and it is
  positive once a delay has been set or a step timer is pending.
\<close>

definition ramp_inv :: "led_state \<Rightarrow> bool" where
  "ramp_inv s \<longleftrightarrow>
     steps (led_ctrl_breathe s) \<le> 256 \<and>
     (0 < delay (led_ctrl_breathe s) \<longrightarrow> 0 < steps (led_ctrl_breathe s)) \<and>
     (CB_STEP \<in> set (map (\<lambda>src. snd (snd src)) (glib_sources s)) \<longrightarrow>
        0 < steps (led_ctrl_breathe s))"

text \<open>The stored step index and step count.\<close>

definition ramp_index :: "led_state \<Rightarrow> nat \<times> nat" where
  "ramp_index s = (step (led_ctrl_breathe s), steps (led_ctrl_breathe s))"

text \<open>
  For closed examples: a sample function (the examples do not depend on the bytes of
  the curve), a device with the vanilla backend, and a run that probes the backend,
  sets a red pattern of 150 ms on and 150 ms off, enables breathing and lets the
  settle timer fire, after which the step timer is pending.
\<close>

definition sample_flat :: sample_fn where
  "sample_flat falling i n = 0"

definition env_vanilla :: hal_env where
  "env_vanilla =
     \<lparr>env_probe = Some Vanilla, env_modlights_load = False, env_device_open = False,
      env_set_light = 0\<rparr>"

definition breathing_run :: "led_event list" where
  "breathing_run =
     [EV_init env_vanilla, EV_set_pattern env_vanilla 255 0 0 150 150,
      EV_enable_breathing True, EV_timeout 1]"

definition breathing_state :: led_state where
  "breathing_state = the (led_run sample_flat led_state_init breathing_run)"

section \<open>Properties\<close>

lemmas led_consts = LED_CTRL_KERNEL_DELAY_def LED_CTRL_BREATHING_DELAY_def
  LED_CTRL_MAX_STEPS_def LED_CTRL_MIN_STEPS_def

subsection \<open>Truncating division\<close>

lemma sdiv_nonneg: "0 \<le> a \<Longrightarrow> 0 < c \<Longrightarrow> (a::int) sdiv c = a div c"
  by (simp add: signed_divide_int_def sgn_if)

lemma sdiv_neg: "a < 0 \<Longrightarrow> 0 < c \<Longrightarrow> (a::int) sdiv c = - ((- a) div c)"
  by (simp add: signed_divide_int_def sgn_if)

text \<open>Rounding a quotient of integers to the nearest integer, in integer arithmetic.\<close>

lemma round_divide_int:
  assumes "0 < t"
  shows "round (real_of_int a / real_of_int t) = (a + t div 2) div t"
proof -
  have "real_of_int a / real_of_int t + 1 / 2 = real_of_int (2 * a + t) / real_of_int (2 * t)"
    using assms by (simp add: field_simps)
  then have "round (real_of_int a / real_of_int t) =
      \<lfloor>real_of_int (2 * a + t) / real_of_int (2 * t)\<rfloor>"
    by (simp add: round_def)
  also have "\<dots> = (2 * a + t) div (2 * t)"
    by (rule floor_divide_of_int_eq)
  also have "\<dots> = (2 * a + t) div 2 div t"
    using assms by (simp add: zdiv_zmult2_eq)
  also have "(2 * a + t) div 2 = a + t div 2"
    by presburger
  finally show ?thesis .
qed

lemma round_div_255: "round (real_of_int x / 255) = (x + 127) div 255"
  using round_divide_int [of 255 x] by simp

lemma div_255_bias:
  fixes x :: int
  shows "(x + 128) div 255 = (x + 127) div 255 + (if x mod 255 = 127 then 1 else 0)"
proof -
  define q where "q = x div 255"
  define m where "m = x mod 255"
  have x: "x = 255 * q + m" and m: "0 \<le> m" "m < 255"
    by (simp_all add: q_def m_def)
  consider "m < 127" | "m = 127" | "127 < m" by linarith
  then show ?thesis
  proof cases
    case 1
    have "(x + 128) div 255 = q"
      using 1 m x by (intro int_div_pos_eq [where r = "m + 128"]) auto
    moreover have "(x + 127) div 255 = q"
      using 1 m x by (intro int_div_pos_eq [where r = "m + 127"]) auto
    ultimately show ?thesis using 1 by (simp add: m_def)
  next
    case 2
    have "(x + 128) div 255 = q + 1"
      using 2 x by (intro int_div_pos_eq [where r = 0]) auto
    moreover have "(x + 127) div 255 = q"
      using 2 x by (intro int_div_pos_eq [where r = 254]) auto
    ultimately show ?thesis using 2 by (simp add: m_def)
  next
    case 3
    have "(x + 128) div 255 = q + 1"
      using 3 m x by (intro int_div_pos_eq [where r = "m - 127"]) auto
    moreover have "(x + 127) div 255 = q + 1"
      using 3 m x by (intro int_div_pos_eq [where r = "m - 128"]) auto
    ultimately show ?thesis using 3 by (simp add: m_def)
  qed
qed

subsection \<open>Channel scaling\<close>

lemma led_util_scale_value_floor:
  assumes "0 \<le> maxv"
  shows "led_util_scale_value v maxv = max 0 (min maxv ((v * maxv + 128) div 255))"
proof (cases "0 \<le> v * maxv + 128")
  case True
  then show ?thesis
    using assms by (simp add: led_util_scale_value_def Let_def sdiv_nonneg max_def min_def)
next
  case False
  then have neg: "v * maxv + 128 < 0" by simp
  then have 1: "(v * maxv + 128) sdiv 255 \<le> 0"
    by (simp add: sdiv_neg)
  from neg have 2: "(v * maxv + 128) div 255 < 0"
    by simp
  have "led_util_scale_value v maxv = 0"
    using 1 assms by (simp add: led_util_scale_value_def Let_def)
  moreover have "max 0 (min maxv ((v * maxv + 128) div 255)) = 0"
    using 2 assms by (simp add: max_def min_def)
  ultimately show ?thesis by simp
qed

lemma led_util_scale_value_in_int_range:
  assumes "0 \<le> v" "v \<le> 255" "0 \<le> maxv" "maxv \<le> 255"
  shows "in_int_range (v * maxv) \<and> in_int_range (v * maxv + 128)"
proof -
  have "v * maxv \<le> 255 * 255" using assms by (intro mult_mono) auto
  moreover have "0 \<le> v * maxv" using assms by simp
  ultimately show ?thesis by (simp add: in_int_range_def INT_MIN_def INT_MAX_def)
qed

text \<open>
  What the source computes, for a maximum that is not negative: the quotient
  \<open>value * maxv / 255\<close> rounded to the nearest integer, or one more when
  \<open>value * maxv mod 255 = 127\<close> (the source adds 128 before it divides by 255), clamped
  to \<open>[0, maxv]\<close>.
\<close>

lemma led_util_scale_value_bias:
  assumes "0 \<le> maxv"
  shows "led_util_scale_value v maxv =
    max 0 (min maxv (round (real_of_int (v * maxv) / 255) +
                     (if (v * maxv) mod 255 = 127 then 1 else 0)))"
  unfolding led_util_scale_value_floor [OF assms] round_div_255 div_255_bias [of "v * maxv"] ..

text \<open>
  C4, as stated, fails: scaling 127 to the range 0...1 gives 1, while 127/255 rounded
  to the nearest integer is 0; and for the maximum -1 the value 0 is scaled to -1,
  which no clamp to \<open>[0, maxv]\<close> gives.
\<close>

theorem led_util_scale_value_counterexample:
  "led_util_scale_value 127 1 \<noteq> max 0 (min 1 (round (real_of_int (127 * 1) / 255))) \<and>
   led_util_scale_value 0 (- 1) \<noteq> max 0 (min (- 1) (round (real_of_int (0 * (- 1)) / 255)))"
  by (simp add: led_util_scale_value_def signed_divide_int_def round_def)

text \<open>
  C4, amended: for every value and every maximum \<open>maxv \<ge> 0\<close> with
  \<open>value * maxv mod 255 \<noteq> 127\<close> the result is \<open>value * maxv / 255\<close> rounded to the
  nearest integer and clamped to \<open>[0, maxv]\<close>.
\<close>

theorem led_util_scale_value_round:
  assumes "0 \<le> maxv" "(v * maxv) mod 255 \<noteq> 127"
  shows "led_util_scale_value v maxv = max 0 (min maxv (round (real_of_int (v * maxv) / 255)))"
  using led_util_scale_value_bias [OF assms(1), of v] assms(2) by simp

theorem led_util_scale_value_round_witness:
  "(0::int) \<le> 100 \<and> (200 * 100) mod 255 \<noteq> (127::int) \<and> led_util_scale_value 200 100 = 78"
  using led_util_scale_value_round [of 100 200]
  by (simp add: round_def)

subsection \<open>Sanitizing and classifying requests\<close>

text \<open>
  C2: \<^verbatim>\<open>led_request_sanitize\<close> applies its four rules in order: no colour (no
  channel positive) clears the timing and the breathe flag; otherwise a non-positive
  period clears both too; otherwise a period under 140 ms clears the breathe flag only
  and keeps the timing; otherwise the request is unchanged. The channels and the level
  are never modified.
\<close>

theorem led_request_sanitize_rules:
  "(r q \<le> 0 \<and> g q \<le> 0 \<and> b q \<le> 0 \<longrightarrow>
      led_request_sanitize q = q\<lparr>on := 0, off := 0, breathe := False\<rparr>) \<and>
   (\<not> (r q \<le> 0 \<and> g q \<le> 0 \<and> b q \<le> 0) \<and> (on q \<le> 0 \<or> off q \<le> 0) \<longrightarrow>
      led_request_sanitize q = q\<lparr>on := 0, off := 0, breathe := False\<rparr>) \<and>
   (\<not> (r q \<le> 0 \<and> g q \<le> 0 \<and> b q \<le> 0) \<and> \<not> (on q \<le> 0 \<or> off q \<le> 0) \<and>
    (on q < 140 \<or> off q < 140) \<longrightarrow>
      led_request_sanitize q = q\<lparr>breathe := False\<rparr>) \<and>
   (\<not> (r q \<le> 0 \<and> g q \<le> 0 \<and> b q \<le> 0) \<and> \<not> (on q \<le> 0 \<or> off q \<le> 0) \<and>
    \<not> (on q < 140 \<or> off q < 140) \<longrightarrow>
      led_request_sanitize q = q) \<and>
   r (led_request_sanitize q) = r q \<and> g (led_request_sanitize q) = g q \<and>
   b (led_request_sanitize q) = b q \<and> level (led_request_sanitize q) = level q"
  by (auto simp: led_request_sanitize_def led_request_has_color_def led_consts Let_def)

theorem led_request_sanitize_rules_witness:
  "led_request_sanitize \<lparr>r = 0, g = 0, b = 0, on = 500, off = 500, level = 255, breathe = True\<rparr>
     = \<lparr>r = 0, g = 0, b = 0, on = 0, off = 0, level = 255, breathe = False\<rparr> \<and>
   led_request_sanitize \<lparr>r = 255, g = 0, b = 0, on = 500, off = 0, level = 255, breathe = True\<rparr>
     = \<lparr>r = 255, g = 0, b = 0, on = 0, off = 0, level = 255, breathe = False\<rparr> \<and>
   led_request_sanitize \<lparr>r = 255, g = 0, b = 0, on = 500, off = 139, level = 255, breathe = True\<rparr>
     = \<lparr>r = 255, g = 0, b = 0, on = 500, off = 139, level = 255, breathe = False\<rparr> \<and>
   led_request_sanitize \<lparr>r = 255, g = 0, b = 0, on = 500, off = 140, level = 255, breathe = True\<rparr>
     = \<lparr>r = 255, g = 0, b = 0, on = 500, off = 140, level = 255, breathe = True\<rparr>"
  using led_request_sanitize_rules
      [of "\<lparr>r = 0, g = 0, b = 0, on = 500, off = 500, level = 255, breathe = True\<rparr>"]
    led_request_sanitize_rules
      [of "\<lparr>r = 255, g = 0, b = 0, on = 500, off = 0, level = 255, breathe = True\<rparr>"]
    led_request_sanitize_rules
      [of "\<lparr>r = 255, g = 0, b = 0, on = 500, off = 139, level = 255, breathe = True\<rparr>"]
    led_request_sanitize_rules
      [of "\<lparr>r = 255, g = 0, b = 0, on = 500, off = 140, level = 255, breathe = True\<rparr>"]
  by simp

text \<open>
  C6: the style of a sanitized request is OFF exactly when no channel of the request
  is positive, whatever timing and breathe flag were supplied; otherwise STATIC when a
  period is non-positive; otherwise BREATH when the breathe flag is set; otherwise BLINK.
\<close>

theorem led_request_get_style_sanitized:
  "(led_request_get_style (led_request_sanitize q) = STYLE_OFF \<longleftrightarrow>
      r q \<le> 0 \<and> g q \<le> 0 \<and> b q \<le> 0) \<and>
   (\<not> (r q \<le> 0 \<and> g q \<le> 0 \<and> b q \<le> 0) \<and>
    (on (led_request_sanitize q) \<le> 0 \<or> off (led_request_sanitize q) \<le> 0) \<longrightarrow>
      led_request_get_style (led_request_sanitize q) = STYLE_STATIC) \<and>
   (\<not> (r q \<le> 0 \<and> g q \<le> 0 \<and> b q \<le> 0) \<and>
    \<not> (on (led_request_sanitize q) \<le> 0 \<or> off (led_request_sanitize q) \<le> 0) \<and>
    breathe (led_request_sanitize q) \<longrightarrow>
      led_request_get_style (led_request_sanitize q) = STYLE_BREATH) \<and>
   (\<not> (r q \<le> 0 \<and> g q \<le> 0 \<and> b q \<le> 0) \<and>
    \<not> (on (led_request_sanitize q) \<le> 0 \<or> off (led_request_sanitize q) \<le> 0) \<and>
    \<not> breathe (led_request_sanitize q) \<longrightarrow>
      led_request_get_style (led_request_sanitize q) = STYLE_BLINK)"
  by (auto simp: led_request_get_style_def led_request_sanitize_def
      led_request_has_color_def led_consts Let_def)

theorem led_request_get_style_sanitized_witness:
  "led_request_get_style (led_request_sanitize
     \<lparr>r = 0, g = 0, b = 0, on = 500, off = 500, level = 255, breathe = True\<rparr>) = STYLE_OFF \<and>
   led_request_get_style (led_request_sanitize
     \<lparr>r = 0, g = 9, b = 0, on = 500, off = 0, level = 255, breathe = True\<rparr>) = STYLE_STATIC \<and>
   led_request_get_style (led_request_sanitize
     \<lparr>r = 0, g = 9, b = 0, on = 500, off = 500, level = 255, breathe = True\<rparr>) = STYLE_BREATH \<and>
   led_request_get_style (led_request_sanitize
     \<lparr>r = 0, g = 9, b = 0, on = 500, off = 100, level = 255, breathe = True\<rparr>) = STYLE_BLINK"
  using led_request_get_style_sanitized
      [of "\<lparr>r = 0, g = 0, b = 0, on = 500, off = 500, level = 255, breathe = True\<rparr>"]
    led_request_get_style_sanitized
      [of "\<lparr>r = 0, g = 9, b = 0, on = 500, off = 0, level = 255, breathe = True\<rparr>"]
    led_request_get_style_sanitized
      [of "\<lparr>r = 0, g = 9, b = 0, on = 500, off = 500, level = 255, breathe = True\<rparr>"]
    led_request_get_style_sanitized
      [of "\<lparr>r = 0, g = 9, b = 0, on = 500, off = 100, level = 255, breathe = True\<rparr>"]
  by (simp add: led_request_sanitize_def led_request_has_color_def led_consts)

text \<open>
  C10: sanitizing is idempotent; in a sanitized request the on period is positive
  exactly when the off period is, and a set breathe flag means that both periods are
  at least 140 ms.
\<close>

theorem led_request_sanitize_idem:
  "led_request_sanitize (led_request_sanitize q) = led_request_sanitize q \<and>
   (on (led_request_sanitize q) > 0 \<longleftrightarrow> off (led_request_sanitize q) > 0) \<and>
   (breathe (led_request_sanitize q) \<longrightarrow>
      on (led_request_sanitize q) \<ge> 140 \<and> off (led_request_sanitize q) \<ge> 140)"
  by (auto simp: led_request_sanitize_def led_request_has_color_def led_consts Let_def)

theorem led_request_sanitize_idem_witness:
  "breathe (led_request_sanitize
     \<lparr>r = 1, g = 2, b = 3, on = 140, off = 60000, level = 1, breathe = True\<rparr>) \<and>
   on (led_request_sanitize
     \<lparr>r = 1, g = 2, b = 3, on = 140, off = 60000, level = 1, breathe = True\<rparr>) = 140 \<and>
   led_request_sanitize (led_request_sanitize
     \<lparr>r = 1, g = 2, b = 3, on = 140, off = 60000, level = 1, breathe = True\<rparr>) =
     \<lparr>r = 1, g = 2, b = 3, on = 140, off = 60000, level = 1, breathe = True\<rparr>"
  using led_request_sanitize_idem
      [of "\<lparr>r = 1, g = 2, b = 3, on = 140, off = 60000, level = 1, breathe = True\<rparr>"]
  by (simp add: led_request_sanitize_def led_request_has_color_def led_consts)

subsection \<open>Ceilings and bounds of quotients\<close>

lemma ceiling_divide_int:
  assumes "0 < c"
  shows "\<lceil>real_of_int a / real_of_int c\<rceil> = (a + c - 1) div c"
proof -
  define q where "q = a div c"
  define m where "m = a mod c"
  have a: "a = c * q + m" and m: "0 \<le> m" "m < c"
    using assms by (simp_all add: q_def m_def)
  have "\<lceil>real_of_int a / real_of_int c\<rceil> = - (- a div c)"
    by (rule ceiling_divide_eq_div)
  also have "\<dots> = (a + c - 1) div c"
  proof (cases "m = 0")
    case True
    have "- a div c = - q"
      using True a assms by (intro int_div_pos_eq [where r = 0]) auto
    moreover have "(a + c - 1) div c = q"
      using True a assms by (intro int_div_pos_eq [where r = "c - 1"]) auto
    ultimately show ?thesis by simp
  next
    case False
    have "- a div c = - q - 1"
      using False a m assms by (intro int_div_pos_eq [where r = "c - m"]) (auto simp: algebra_simps)
    moreover have "(a + c - 1) div c = q + 1"
      using False a m assms by (intro int_div_pos_eq [where r = "m - 1"]) (auto simp: algebra_simps)
    ultimately show ?thesis by simp
  qed
  finally show ?thesis .
qed

lemma div_ge_bound:
  fixes a c q :: int
  assumes "0 < c" "q * c \<le> a"
  shows "q \<le> a div c"
proof -
  have "(q * c) div c \<le> a div c" using assms by (intro zdiv_mono1) auto
  then show ?thesis using assms by simp
qed

lemma div_le_bound:
  fixes a c q :: int
  assumes "0 < c" "a < (q + 1) * c"
  shows "a div c \<le> q"
proof -
  have "a div c \<le> ((q + 1) * c - 1) div c" using assms by (intro zdiv_mono1) auto
  also have "((q + 1) * c - 1) div c = q"
    using assms by (intro int_div_pos_eq [where r = "c - 1"]) (auto simp: algebra_simps)
  finally show ?thesis .
qed

subsection \<open>The ramp generator\<close>

text \<open>A loop that fits the array stores one byte for each of its steps.\<close>

lemma ramp_loop_Some:
  "int k + max 0 (n - i) \<le> LED_CTRL_MAX_STEPS \<Longrightarrow>
   \<exists>v'. ramp_loop f i n v k = Some (v', k + nat (n - i))"
proof (induction f i n v k rule: ramp_loop.induct)
  case (1 f i n v k)
  show ?case
  proof (cases "i < n")
    case True
    with "1.prems" have k: "int k < LED_CTRL_MAX_STEPS" by simp
    from True "1.prems" have "int (Suc k) + max 0 (n - (i + 1)) \<le> LED_CTRL_MAX_STEPS" by simp
    from "1.IH" [OF True k this] obtain v' where
      "ramp_loop f (i + 1) n (v(k := f i)) (Suc k) = Some (v', Suc k + nat (n - (i + 1)))" ..
    moreover from True have "Suc k + nat (n - (i + 1)) = k + nat (n - i)" by simp
    ultimately show ?thesis using True k by (subst ramp_loop.simps) simp
  next
    case False
    then show ?thesis by (subst ramp_loop.simps) simp
  qed
qed

text \<open>The bytes such a loop stores, and the entries it leaves alone.\<close>

lemma ramp_loop_fill:
  "int k + max 0 (n - i) \<le> LED_CTRL_MAX_STEPS \<Longrightarrow>
   ramp_loop f i n v k =
     Some (\<lambda>j. if k \<le> j \<and> int j < int k + (n - i) then f (i + (int j - int k)) else v j,
           k + nat (n - i))"
proof (induction f i n v k rule: ramp_loop.induct)
  case (1 f i n v k)
  show ?case
  proof (cases "i < n")
    case True
    with "1.prems" have k: "int k < LED_CTRL_MAX_STEPS" by simp
    from True "1.prems" have fit: "int (Suc k) + max 0 (n - (i + 1)) \<le> LED_CTRL_MAX_STEPS"
      by simp
    have arr: "(\<lambda>j. if Suc k \<le> j \<and> int j < int (Suc k) + (n - (i + 1))
                   then f (i + 1 + (int j - int (Suc k))) else (v(k := f i)) j) =
               (\<lambda>j. if k \<le> j \<and> int j < int k + (n - i) then f (i + (int j - int k)) else v j)"
    proof
      fix j
      show "(if Suc k \<le> j \<and> int j < int (Suc k) + (n - (i + 1))
             then f (i + 1 + (int j - int (Suc k))) else (v(k := f i)) j) =
            (if k \<le> j \<and> int j < int k + (n - i) then f (i + (int j - int k)) else v j)"
      proof (cases "j = k")
        case True
        with \<open>i < n\<close> show ?thesis by simp
      next
        case False
        have "i + 1 + (int j - int (Suc k)) = i + (int j - int k)" by simp
        with False show ?thesis by (auto simp: Suc_le_eq)
      qed
    qed
    from True have cnt: "Suc k + nat (n - (i + 1)) = k + nat (n - i)" by simp
    have "ramp_loop f i n v k = ramp_loop f (i + 1) n (v(k := f i)) (Suc k)"
      using True k by (subst ramp_loop.simps) simp
    also have "\<dots> = Some (\<lambda>j. if Suc k \<le> j \<and> int j < int (Suc k) + (n - (i + 1))
                   then f (i + 1 + (int j - int (Suc k))) else (v(k := f i)) j,
                 Suc k + nat (n - (i + 1)))"
      by (rule "1.IH" [OF True k fit])
    finally show ?thesis by (simp only: arr cnt)
  next
    case False
    then have "(\<lambda>j. if k \<le> j \<and> int j < int k + (n - i) then f (i + (int j - int k)) else v j) = v"
      by (intro ext) auto
    with False show ?thesis by (subst ramp_loop.simps) simp
  qed
qed

text \<open>
The numbers of \<^verbatim>\<open>led_ctrl_generate_ramp\<close>, for periods that are not negative.
\<close>

lemma ramp_numbers:
  fixes ms_on ms_off :: int
  assumes on0: "0 \<le> ms_on" and off0: "0 \<le> ms_off" and pos: "0 < ms_on + ms_off"
    and t_def: "t = ms_on + ms_off"
    and s_def: "s = max ((t + 255) div 256) 20"
    and n_def: "n = (t + s - 1) div s"
    and steps_on_def: "steps_on = (n * ms_on + t div 2) div t"
  shows "20 \<le> s" "1 \<le> n" "n \<le> 256" "0 \<le> steps_on" "steps_on \<le> n"
proof -
  have t: "0 < t" using pos t_def by simp
  show s: "20 \<le> s" by (simp add: s_def)
  have "(t + 255) mod 256 < 256" by simp
  moreover have "t + 255 = 256 * ((t + 255) div 256) + (t + 255) mod 256" by simp
  ultimately have "t \<le> 256 * ((t + 255) div 256)" by linarith
  also have "\<dots> \<le> 256 * s" by (simp add: s_def)
  finally have ts: "t \<le> 256 * s" .
  have "1 * s \<le> t + s - 1" using t by simp
  with s show n1: "1 \<le> n" unfolding n_def by (intro div_ge_bound) simp_all
  have "t + s - 1 < (256 + 1) * s" using ts s by simp
  with s show "n \<le> 256" unfolding n_def by (intro div_le_bound) simp_all
  have n0: "0 \<le> n" using n1 by simp
  have "0 \<le> n * ms_on" using n0 on0 by (rule mult_nonneg_nonneg)
  moreover have "0 \<le> t div 2" using t by simp
  ultimately have "0 \<le> n * ms_on + t div 2" by simp
  then show "0 \<le> steps_on" unfolding steps_on_def using t by (simp add: pos_imp_zdiv_nonneg_iff)
  have "ms_on \<le> t" using off0 t_def by simp
  then have "n * ms_on \<le> n * t" using n0 by (rule mult_left_mono)
  moreover have "t div 2 < t" using t by simp
  moreover have "(n + 1) * t = n * t + t" by (simp add: algebra_simps)
  ultimately have "n * ms_on + t div 2 < (n + 1) * t" by linarith
  with t show "steps_on \<le> n" unfolding steps_on_def by (intro div_le_bound) simp_all
qed

lemma led_ctrl_generate_ramp_nonneg:
  assumes "0 \<le> ms_on" "0 \<le> ms_off" "0 < ms_on + ms_off"
    and t_def: "t = ms_on + ms_off"
    and s_def: "s = max ((t + 255) div 256) 20"
    and n_def: "n = (t + s - 1) div s"
    and steps_on_def: "steps_on = (n * ms_on + t div 2) div t"
  shows "\<exists>v. led_ctrl_generate_ramp sample ms_on ms_off br =
           Some (br\<lparr>delay := s, steps := nat n, value_arr := v\<rparr>)"
proof -
  note nums = ramp_numbers [OF assms]
  have t: "0 < t" using assms(3) t_def by simp
  have d1: "(t + LED_CTRL_MAX_STEPS - 1) sdiv LED_CTRL_MAX_STEPS = (t + 255) div 256"
    using t by (simp add: led_consts sdiv_nonneg)
  have d2: "(if (t + 255) div 256 < LED_CTRL_BREATHING_DELAY then LED_CTRL_BREATHING_DELAY
             else (t + 255) div 256) = s"
    by (simp add: s_def led_consts max_def)
  have d3: "(t + s - 1) sdiv s = n"
    using t nums(1) by (simp add: sdiv_nonneg n_def)
  have d4: "t sdiv 2 = t div 2"
    using t by (simp add: sdiv_nonneg)
  have "0 \<le> n * ms_on" using nums(2) assms(1) by (intro mult_nonneg_nonneg) simp_all
  moreover have "0 \<le> t div 2" using t by simp
  ultimately have "0 \<le> n * ms_on + t div 2" by simp
  then have d5: "(n * ms_on + t div 2) sdiv t = steps_on"
    using t by (simp add: sdiv_nonneg steps_on_def)
  have b1: "int 0 + max 0 (steps_on - 0) \<le> LED_CTRL_MAX_STEPS"
    using nums(3,4,5) by (simp add: led_consts)
  obtain v1 where
    l1: "ramp_loop (\<lambda>i. sample False i steps_on) 0 steps_on (value_arr br) 0 =
           Some (v1, nat steps_on)"
    using ramp_loop_Some [OF b1, of "\<lambda>i. sample False i steps_on" "value_arr br"] by auto
  have b2: "int (nat steps_on) + max 0 (n - steps_on - 0) \<le> LED_CTRL_MAX_STEPS"
    using nums(3,4,5) by (simp add: led_consts)
  obtain v2 where
    l2: "ramp_loop (\<lambda>i. sample True i (n - steps_on)) 0 (n - steps_on) v1 (nat steps_on) =
           Some (v2, nat n)"
    using ramp_loop_Some [OF b2, of "\<lambda>i. sample True i (n - steps_on)" v1] nums(4,5) by auto
  have "led_ctrl_generate_ramp sample ms_on ms_off br =
          Some (br\<lparr>delay := s, steps := nat n, value_arr := v2\<rparr>)"
    unfolding led_ctrl_generate_ramp_def Let_def t_def [symmetric] d1 d2 d3 d4 d5 l1
    using t l2 by simp
  then show ?thesis by (rule exI [of _ v2])
qed

text \<open>The curve that is stored: the rising edge, then the falling edge.\<close>

lemma led_ctrl_generate_ramp_array:
  assumes "0 \<le> ms_on" "0 \<le> ms_off" "0 < ms_on + ms_off"
    and t_def: "t = ms_on + ms_off"
    and s_def: "s = max ((t + 255) div 256) 20"
    and n_def: "n = (t + s - 1) div s"
    and steps_on_def: "steps_on = (n * ms_on + t div 2) div t"
  shows "led_ctrl_generate_ramp sample ms_on ms_off br =
           Some (br\<lparr>delay := s, steps := nat n,
                 value_arr := (\<lambda>k. if int k < steps_on then sample False (int k) steps_on
                                    else if int k < n
                                    then sample True (int k - steps_on) (n - steps_on)
                                    else value_arr br k)\<rparr>)"
proof -
  note nums = ramp_numbers [OF assms]
  have t: "0 < t" using assms(3) t_def by simp
  have d1: "(t + LED_CTRL_MAX_STEPS - 1) sdiv LED_CTRL_MAX_STEPS = (t + 255) div 256"
    using t by (simp add: led_consts sdiv_nonneg)
  have d2: "(if (t + 255) div 256 < LED_CTRL_BREATHING_DELAY then LED_CTRL_BREATHING_DELAY
             else (t + 255) div 256) = s"
    by (simp add: s_def led_consts max_def)
  have d3: "(t + s - 1) sdiv s = n"
    using t nums(1) by (simp add: sdiv_nonneg n_def)
  have d4: "t sdiv 2 = t div 2"
    using t by (simp add: sdiv_nonneg)
  have "0 \<le> n * ms_on" using nums(2) assms(1) by (intro mult_nonneg_nonneg) simp_all
  moreover have "0 \<le> t div 2" using t by simp
  ultimately have "0 \<le> n * ms_on + t div 2" by simp
  then have d5: "(n * ms_on + t div 2) sdiv t = steps_on"
    using t by (simp add: sdiv_nonneg steps_on_def)
  define v1 where "v1 = (\<lambda>j. if 0 \<le> j \<and> int j < int 0 + (steps_on - 0)
      then sample False (0 + (int j - int 0)) steps_on else value_arr br j)"
  define v2 where "v2 = (\<lambda>j. if nat steps_on \<le> j \<and> int j < int (nat steps_on) + (n - steps_on - 0)
      then sample True (0 + (int j - int (nat steps_on))) (n - steps_on) else v1 j)"
  have b1: "int 0 + max 0 (steps_on - 0) \<le> LED_CTRL_MAX_STEPS"
    using nums(3,4,5) by (simp add: led_consts)
  have l1: "ramp_loop (\<lambda>i. sample False i steps_on) 0 steps_on (value_arr br) 0 =
      Some (v1, nat steps_on)"
    using ramp_loop_fill [OF b1, of "\<lambda>i. sample False i steps_on" "value_arr br"]
    by (simp add: v1_def)
  have b2: "int (nat steps_on) + max 0 (n - steps_on - 0) \<le> LED_CTRL_MAX_STEPS"
    using nums(3,4,5) by (simp add: led_consts)
  have k: "nat steps_on + nat (n - steps_on) = nat n" using nums(4,5) by simp
  have l2: "ramp_loop (\<lambda>i. sample True i (n - steps_on)) 0 (n - steps_on) v1 (nat steps_on) =
      Some (v2, nat n)"
    using ramp_loop_fill [OF b2, of "\<lambda>i. sample True i (n - steps_on)" v1] k
    by (simp add: v2_def)
  have arr: "v2 = (\<lambda>k. if int k < steps_on then sample False (int k) steps_on
                       else if int k < n then sample True (int k - steps_on) (n - steps_on)
                       else value_arr br k)"
  proof
    fix j
    show "v2 j = (if int j < steps_on then sample False (int j) steps_on
                  else if int j < n then sample True (int j - steps_on) (n - steps_on)
                  else value_arr br j)"
      using nums(4,5) by (auto simp: v2_def v1_def)
  qed
  have "led_ctrl_generate_ramp sample ms_on ms_off br =
          Some (br\<lparr>delay := s, steps := nat n, value_arr := v2\<rparr>)"
    unfolding led_ctrl_generate_ramp_def Let_def t_def [symmetric] d1 d2 d3 d4 d5 l1
    using t l2 by simp
  then show ?thesis by (simp only: arr)
qed

text \<open>
For timings as the public functions clamp them, no intermediate value leaves the range of
  a 32 bit \<^verbatim>\<open>int\<close>.
\<close>

lemma led_ctrl_generate_ramp_in_int_range:
  fixes ms_on ms_off :: int
  assumes on0: "0 \<le> ms_on" "ms_on \<le> 60000" and off0: "0 \<le> ms_off" "ms_off \<le> 60000"
    and pos: "0 < ms_on + ms_off"
    and t_def: "t = ms_on + ms_off"
    and s_def: "s = max ((t + 255) div 256) 20"
    and n_def: "n = (t + s - 1) div s"
  shows "in_int_range (t + 255)" "in_int_range (t + s - 1)" "in_int_range (n * ms_on + t div 2)"
proof -
  define steps_on where "steps_on = (n * ms_on + t div 2) div t"
  note nums = ramp_numbers [OF on0(1) off0(1) pos t_def s_def n_def steps_on_def]
  have t: "0 < t" "t \<le> 120000" using on0 off0 pos t_def by simp_all
  have s: "s \<le> 120255" using t by (simp add: s_def)
  show "in_int_range (t + 255)" using t by (simp add: in_int_range_def INT_MIN_def INT_MAX_def)
  show "in_int_range (t + s - 1)"
    using t s nums(1) by (simp add: in_int_range_def INT_MIN_def INT_MAX_def)
  have "n * ms_on \<le> 256 * 60000" using nums(2,3) on0 by (intro mult_mono) simp_all
  moreover have "0 \<le> n * ms_on" using nums(2) on0(1) by (intro mult_nonneg_nonneg) simp_all
  moreover have "0 \<le> t div 2" "t div 2 \<le> 60000" using t by simp_all
  ultimately show "in_int_range (n * ms_on + t div 2)"
    by (simp add: in_int_range_def INT_MIN_def INT_MAX_def)
qed

text \<open>
A breathing request has periods of at least 140 ms: the ramp is generated, with a
  positive step count that fits the array.
\<close>

lemma led_request_sanitize_breath:
  assumes "led_request_get_style (led_request_sanitize q) = STYLE_BREATH"
  shows "140 \<le> on (led_request_sanitize q)" "140 \<le> off (led_request_sanitize q)"
  using assms
  by (auto simp: led_request_get_style_def led_request_sanitize_def led_consts Let_def
      split: if_splits)

lemma led_ctrl_generate_ramp_breath:
  assumes "140 \<le> ms_on" "140 \<le> ms_off"
  shows "\<exists>br'. led_ctrl_generate_ramp sample ms_on ms_off br = Some br' \<and>
           0 < steps br' \<and> steps br' \<le> 256 \<and> 0 < delay br' \<and> step br' = step br"
proof -
  define t where "t = ms_on + ms_off"
  define s where "s = max ((t + 255) div 256) 20"
  define n where "n = (t + s - 1) div s"
  define steps_on where "steps_on = (n * ms_on + t div 2) div t"
  have a: "0 \<le> ms_on" "0 \<le> ms_off" "0 < ms_on + ms_off" using assms by simp_all
  note nums = ramp_numbers [OF a t_def s_def n_def steps_on_def]
  from led_ctrl_generate_ramp_nonneg [OF a t_def s_def n_def steps_on_def]
  obtain v where "led_ctrl_generate_ramp sample ms_on ms_off br =
      Some (br\<lparr>delay := s, steps := nat n, value_arr := v\<rparr>)" ..
  moreover have "0 < nat n" "nat n \<le> 256" "0 < s" using nums(1,2,3) by simp_all
  ultimately show ?thesis by simp
qed

text \<open>
  C3: for periods \<open>on_ms \<ge> 0\<close> and \<open>off_ms \<ge> 0\<close>, as the timing of a request is,
  with \<open>t = on_ms + off_ms > 0\<close>, the generator stores the delay
  \<open>s = max(ceil(t/256), 20)\<close> and the sample count \<open>steps_on + steps_off = n\<close>,
  where \<open>n = ceil(t/s) \<le> 256\<close>, \<open>steps_on\<close> is \<open>n * on_ms / t\<close> rounded to the
  nearest integer, computed as \<open>(n * on_ms + t div 2) div t\<close>, and
  \<open>steps_off = n - steps_on\<close>. The array holds the \<open>steps_on\<close> samples of the rising
  edge, then the \<open>steps_off\<close> samples of the falling edge, and is unchanged from
  index \<open>n\<close> on: it is never overrun. For \<open>on_ms = off_ms = 1000\<close> the delay is 20,
  with 50 rising and 50 falling samples.
\<close>

theorem led_ctrl_generate_ramp_steps:
  assumes "0 \<le> ms_on" "0 \<le> ms_off" "0 < ms_on + ms_off"
  shows "let t = ms_on + ms_off;
             s = max \<lceil>real_of_int t / 256\<rceil> 20;
             n = \<lceil>real_of_int t / real_of_int s\<rceil>;
             steps_on = round (real_of_int (n * ms_on) / real_of_int t);
             steps_off = n - steps_on
         in steps_on = (n * ms_on + t div 2) div t \<and> 0 \<le> steps_on \<and> 0 \<le> steps_off \<and>
            n \<le> 256 \<and>
            led_ctrl_generate_ramp sample ms_on ms_off br =
              Some (br\<lparr>delay := s, steps := nat (steps_on + steps_off),
                    value_arr := (\<lambda>k. if int k < steps_on then sample False (int k) steps_on
                                       else if int k < steps_on + steps_off
                                       then sample True (int k - steps_on) steps_off
                                       else value_arr br k)\<rparr>)"
proof -
  define t where "t = ms_on + ms_off"
  define s where "s = max ((t + 255) div 256) 20"
  define n where "n = (t + s - 1) div s"
  define steps_on where "steps_on = (n * ms_on + t div 2) div t"
  note nums = ramp_numbers [OF assms t_def s_def n_def steps_on_def]
  have t: "0 < t" using assms(3) by (simp add: t_def)
  have c1: "\<lceil>real_of_int t / 256\<rceil> = (t + 255) div 256"
    using ceiling_divide_int [of 256 t] by simp
  have c2: "\<lceil>real_of_int t / real_of_int s\<rceil> = n"
    using ceiling_divide_int [of s t] nums(1) by (simp add: n_def)
  have c3: "round (real_of_int (n * ms_on) / real_of_int t) = steps_on"
    using round_divide_int [OF t, of "n * ms_on"] by (simp add: steps_on_def)
  have c4: "steps_on + (n - steps_on) = n" by simp
  note gen = led_ctrl_generate_ramp_array [OF assms t_def s_def n_def steps_on_def, of sample br]
  show ?thesis
    unfolding Let_def t_def [symmetric] c1 s_def [symmetric] c2 c3 c4
    using nums(3,4,5) steps_on_def gen by simp
qed

theorem led_ctrl_generate_ramp_steps_witness:
  "\<forall>sample br. led_ctrl_generate_ramp sample 1000 1000 br =
      Some (br\<lparr>delay := 20, steps := 100,
            value_arr := (\<lambda>k. if int k < 50 then sample False (int k) 50
                               else if int k < 100 then sample True (int k - 50) 50
                               else value_arr br k)\<rparr>)"
proof (intro allI)
  fix sample br
  have "\<lceil>2000 / 256 :: real\<rceil> = 8" by (simp add: ceiling_eq_iff)
  then show "led_ctrl_generate_ramp sample 1000 1000 br =
      Some (br\<lparr>delay := 20, steps := 100,
            value_arr := (\<lambda>k. if int k < 50 then sample False (int k) 50
                               else if int k < 100 then sample True (int k - 50) 50
                               else value_arr br k)\<rparr>)"
    using led_ctrl_generate_ramp_steps [of 1000 1000 sample br]
    by (simp add: Let_def round_def cong: if_cong)
qed

subsection \<open>Starting a pattern\<close>

lemma led_request_is_equal_iff: "led_request_is_equal p q \<longleftrightarrow> p = q"
  by (cases p, cases q) (auto simp: led_request_is_equal_def)

text \<open>
  \<^verbatim>\<open>led_ctrl_start\<close> always returns. The current request becomes the sanitized
  request; the curve is kept, or its delay is cleared, or it is regenerated with a
  positive step count and the old step index; the only source it may attach is a stop
  timer; the log of writes is untouched.
\<close>

lemma led_ctrl_start_effect:
  "\<exists>s'. led_ctrl_start sample next s = Some s' \<and>
     led_ctrl_curr s' = led_request_sanitize next \<and>
     (led_ctrl_breathe s' = led_ctrl_breathe s \<or>
      led_ctrl_breathe s' = (led_ctrl_breathe s)\<lparr>delay := 0\<rparr> \<or>
      (0 < steps (led_ctrl_breathe s') \<and> steps (led_ctrl_breathe s') \<le> 256 \<and>
       0 < delay (led_ctrl_breathe s') \<and>
       step (led_ctrl_breathe s') = step (led_ctrl_breathe s))) \<and>
     (\<forall>src \<in> set (glib_sources s').
        src \<in> set (glib_sources s) \<or> snd (snd src) = CB_STOP) \<and>
     led_ctrl_uses_sysfs s' = led_ctrl_uses_sysfs s \<and>
     led_control s' = led_control s \<and>
     init_done s' = init_done s \<and> init_ack s' = init_ack s \<and>
     dev_indicator s' = dev_indicator s \<and> hw_log s' = hw_log s"
proof -
  define work where "work = led_request_sanitize next"
  define restart where "restart \<longleftrightarrow>
    \<not> (led_request_get_style (led_ctrl_curr s) = STYLE_BREATH \<and>
       led_request_get_style work = STYLE_BREATH \<and>
       led_request_has_equal_timing (led_ctrl_curr s) work)"
  consider (same) "led_request_is_equal (led_ctrl_curr s) work"
    | (keep) "\<not> led_request_is_equal (led_ctrl_curr s) work" "\<not> restart"
    | (plain) "\<not> led_request_is_equal (led_ctrl_curr s) work" "restart"
        "led_request_get_style work \<noteq> STYLE_BREATH"
    | (ramp) "\<not> led_request_is_equal (led_ctrl_curr s) work" "restart"
        "led_request_get_style work = STYLE_BREATH"
    by blast
  then show ?thesis
  proof cases
    case same
    then show ?thesis
      by (simp add: led_ctrl_start_def work_def led_request_is_equal_iff)
  next
    case keep
    then show ?thesis
      by (simp add: led_ctrl_start_def work_def restart_def Let_def)
  next
    case plain
    then show ?thesis
      by (cases "led_ctrl_step_id s = 0"; cases "led_ctrl_stop_id s = 0")
        (auto simp: led_ctrl_start_def work_def restart_def Let_def
          g_timeout_add_def g_source_remove_def)
  next
    case ramp
    from led_request_sanitize_breath [of "next"] ramp(3)
    have "140 \<le> on work" "140 \<le> off work" by (simp_all add: work_def)
    from led_ctrl_generate_ramp_breath [OF this]
    obtain br' where br': "led_ctrl_generate_ramp sample (on work) (off work)
        ((led_ctrl_breathe s)\<lparr>delay := 0\<rparr>) = Some br'"
      "0 < steps br'" "steps br' \<le> 256" "0 < delay br'" "step br' = step (led_ctrl_breathe s)"
      by fastforce
    from ramp br' show ?thesis
      by (cases "led_ctrl_step_id s = 0"; cases "led_ctrl_stop_id s = 0")
        (auto simp: led_ctrl_start_def work_def restart_def Let_def
          g_timeout_add_def g_source_remove_def)
  qed
qed

lemma led_ctrl_start_arms_stop:
  assumes neq: "\<not> led_request_is_equal (led_ctrl_curr s) (led_request_sanitize next)"
    and old: "led_request_get_style (led_ctrl_curr s) \<noteq> STYLE_BREATH"
    and stop: "led_ctrl_stop_id s = 0"
  shows "\<exists>s'. led_ctrl_start sample next s = Some s' \<and>
           led_ctrl_curr s' = led_request_sanitize next \<and>
           led_ctrl_stop_id s' = glib_next_id s \<and>
           (glib_next_id s, LED_CTRL_KERNEL_DELAY, CB_STOP) \<in> set (glib_sources s')"
proof (cases "led_request_get_style (led_request_sanitize next) = STYLE_BREATH")
  case False
  with assms show ?thesis
    by (cases "led_ctrl_step_id s = 0")
      (auto simp: led_ctrl_start_def Let_def g_timeout_add_def g_source_remove_def)
next
  case True
  from led_request_sanitize_breath [OF True]
  have "140 \<le> on (led_request_sanitize next)" "140 \<le> off (led_request_sanitize next)" .
  from led_ctrl_generate_ramp_breath [OF this]
  obtain br' where "led_ctrl_generate_ramp sample (on (led_request_sanitize next))
      (off (led_request_sanitize next)) ((led_ctrl_breathe s)\<lparr>delay := 0\<rparr>) = Some br'"
    by fastforce
  with True assms show ?thesis
    by (cases "led_ctrl_step_id s = 0")
      (auto simp: led_ctrl_start_def Let_def g_timeout_add_def g_source_remove_def)
qed

text \<open>
The example run ends in a state where the controller is breathing.
\<close>

lemma breathing_run_state:
  "led_run sample_flat led_state_init breathing_run = Some breathing_state"
proof -
  have "led_run sample_flat led_state_init breathing_run \<noteq> None" by code_simp
  then show ?thesis by (auto simp: breathing_state_def)
qed

text \<open>
  C1: when the current request and the sanitized new request both have style BREATH
  and equal timing, \<^verbatim>\<open>led_ctrl_start\<close> only replaces the current request by the
  sanitized one: the pending sources (so the step timer), the timer ids, the curve
  with its delay, step count, samples and step index, and the log of writes are those
  of the state before; no stop timer is attached.
\<close>

theorem led_ctrl_start_breathe_continue:
  assumes "led_request_get_style (led_ctrl_curr s) = STYLE_BREATH"
    and "led_request_get_style (led_request_sanitize next) = STYLE_BREATH"
    and "led_request_has_equal_timing (led_ctrl_curr s) (led_request_sanitize next)"
  shows "led_ctrl_start sample next s = Some (s\<lparr>led_ctrl_curr := led_request_sanitize next\<rparr>)"
proof (cases "led_request_is_equal (led_ctrl_curr s) (led_request_sanitize next)")
  case True
  then have "led_ctrl_curr s = led_request_sanitize next"
    by (simp add: led_request_is_equal_iff)
  then have "s\<lparr>led_ctrl_curr := led_request_sanitize next\<rparr> = s" by simp
  then show ?thesis using True by (simp add: led_ctrl_start_def)
next
  case False
  then show ?thesis using assms by (simp add: led_ctrl_start_def Let_def)
qed

theorem led_ctrl_start_breathe_continue_witness:
  "led_request_get_style (led_ctrl_curr breathing_state) = STYLE_BREATH \<and>
   led_ctrl_start sample_flat
     \<lparr>r = 0, g = 255, b = 0, on = 150, off = 150, level = 255, breathe = True\<rparr> breathing_state =
   Some (breathing_state\<lparr>led_ctrl_curr :=
     \<lparr>r = 0, g = 255, b = 0, on = 150, off = 150, level = 255, breathe = True\<rparr>\<rparr>)"
proof -
  let ?q = "\<lparr>r = 0, g = 255, b = 0, on = 150, off = 150, level = 255, breathe = True\<rparr>"
  have san: "led_request_sanitize ?q = ?q"
    by (simp add: led_request_sanitize_def led_request_has_color_def led_consts)
  have h1: "led_request_get_style (led_ctrl_curr breathing_state) = STYLE_BREATH" by code_simp
  have h2: "led_request_get_style (led_request_sanitize ?q) = STYLE_BREATH" by code_simp
  have h3: "led_request_has_equal_timing (led_ctrl_curr breathing_state) (led_request_sanitize ?q)"
    by code_simp
  from led_ctrl_start_breathe_continue [OF h1 h2 h3, of sample_flat] h1 san
  show ?thesis by simp
qed

text \<open>
  C5: a request whose sanitized form equals the current request leaves the state as
  it is: no field changes, no source is attached or removed, nothing is written. So,
  whatever the state, \<^verbatim>\<open>led_ctrl_start\<close> returns a state on which the same request
  is a no-op.
\<close>

theorem led_ctrl_start_noop:
  "(led_request_is_equal (led_ctrl_curr s) (led_request_sanitize next) \<longrightarrow>
      led_ctrl_start sample next s = Some s) \<and>
   (\<exists>s'. led_ctrl_start sample next s = Some s' \<and> led_ctrl_start sample next s' = Some s')"
proof
  show "led_request_is_equal (led_ctrl_curr s) (led_request_sanitize next) \<longrightarrow>
      led_ctrl_start sample next s = Some s"
    by (simp add: led_ctrl_start_def)
  from led_ctrl_start_effect [of sample "next" s] obtain s' where
    s': "led_ctrl_start sample next s = Some s'" "led_ctrl_curr s' = led_request_sanitize next"
    by blast
  from s'(2) have "led_ctrl_start sample next s' = Some s'"
    by (simp add: led_ctrl_start_def led_request_is_equal_iff)
  with s'(1) show "\<exists>s'. led_ctrl_start sample next s = Some s' \<and>
      led_ctrl_start sample next s' = Some s'"
    by blast
qed

theorem led_ctrl_start_noop_witness:
  "led_request_is_equal (led_ctrl_curr breathing_state)
     (led_request_sanitize \<lparr>r = 255, g = 0, b = 0, on = 150, off = 150, level = 255, breathe = True\<rparr>) \<and>
   led_ctrl_start sample_flat
     \<lparr>r = 255, g = 0, b = 0, on = 150, off = 150, level = 255, breathe = True\<rparr> breathing_state =
   Some breathing_state"
proof -
  let ?q = "\<lparr>r = 255, g = 0, b = 0, on = 150, off = 150, level = 255, breathe = True\<rparr>"
  have h: "led_request_is_equal (led_ctrl_curr breathing_state) (led_request_sanitize ?q)"
    by code_simp
  with led_ctrl_start_noop [of breathing_state ?q sample_flat] show ?thesis by simp
qed

subsection \<open>Setting a pattern\<close>

lemma clamp_to_range_max_min:
  "lo \<le> hi \<Longrightarrow> clamp_to_range lo hi val = max lo (min hi val)"
  by (simp add: clamp_to_range_def max_def min_def)

lemma mce_hybris_indicator_set_pattern_start:
  assumes "led_ctrl_uses_sysfs s"
  shows "mce_hybris_indicator_set_pattern env sample r0 g0 b0 ms_on ms_off s =
     map_option (Pair True) (led_ctrl_start sample
       ((led_ctrl_curr s)\<lparr>r := max 0 (min 255 r0), g := max 0 (min 255 g0), b := max 0 (min 255 b0),
          on := (if max 0 (min 60000 ms_on) < 50 \<or> max 0 (min 60000 ms_off) < 50 then 0
                 else max 0 (min 60000 ms_on)),
          off := (if max 0 (min 60000 ms_on) < 50 \<or> max 0 (min 60000 ms_off) < 50 then 0
                  else max 0 (min 60000 ms_off))\<rparr>) s)"
  using assms
  by (simp add: mce_hybris_indicator_set_pattern_def Let_def clamp_to_range_max_min
      split: option.splits)

lemma mce_hybris_indicator_set_pattern_fallback:
  assumes "\<not> led_ctrl_uses_sysfs s"
    "mce_hybris_indicator_set_pattern env sample r0 g0 b0 ms_on ms_off s = Some (ack, s')"
  shows "\<exists>ack1. mce_hybris_indicator_init env sample s = Some (ack1, s')"
proof (cases "mce_hybris_indicator_init env sample s")
  case None
  with assms show ?thesis by (simp add: mce_hybris_indicator_set_pattern_def Let_def)
next
  case (Some res)
  obtain ack1 s1 where "res = (ack1, s1)" by (cases res)
  with Some assms show ?thesis
    by (simp add: mce_hybris_indicator_set_pattern_def Let_def split: if_splits)
qed

text \<open>
  C8: with a sysfs backend in use, \<^verbatim>\<open>mce_hybris_indicator_set_pattern\<close> clamps
  the periods to [0, 60000], clears both when either is below 50, clamps the channels
  to [0, 255], passes the current request with these five fields replaced to
  \<^verbatim>\<open>led_ctrl_start\<close>, and returns true.
\<close>

theorem mce_hybris_indicator_set_pattern_sysfs:
  assumes "led_ctrl_uses_sysfs s"
  shows "\<exists>s'. mce_hybris_indicator_set_pattern env sample r0 g0 b0 ms_on ms_off s = Some (True, s') \<and>
     led_ctrl_start sample
       ((led_ctrl_curr s)\<lparr>r := max 0 (min 255 r0), g := max 0 (min 255 g0), b := max 0 (min 255 b0),
          on := (if max 0 (min 60000 ms_on) < 50 \<or> max 0 (min 60000 ms_off) < 50 then 0
                 else max 0 (min 60000 ms_on)),
          off := (if max 0 (min 60000 ms_on) < 50 \<or> max 0 (min 60000 ms_off) < 50 then 0
                  else max 0 (min 60000 ms_off))\<rparr>) s = Some s'"
proof -
  let ?req = "(led_ctrl_curr s)\<lparr>r := max 0 (min 255 r0), g := max 0 (min 255 g0), b := max 0 (min 255 b0),
          on := (if max 0 (min 60000 ms_on) < 50 \<or> max 0 (min 60000 ms_off) < 50 then 0
                 else max 0 (min 60000 ms_on)),
          off := (if max 0 (min 60000 ms_on) < 50 \<or> max 0 (min 60000 ms_off) < 50 then 0
                  else max 0 (min 60000 ms_off))\<rparr>"
  from led_ctrl_start_effect [of sample ?req s] obtain s' where
    s': "led_ctrl_start sample ?req s = Some s'" by blast
  have "mce_hybris_indicator_set_pattern env sample r0 g0 b0 ms_on ms_off s = Some (True, s')"
    using assms s' by (simp add: mce_hybris_indicator_set_pattern_def Let_def clamp_to_range_max_min)
  with s' show ?thesis by blast
qed

theorem mce_hybris_indicator_set_pattern_sysfs_witness:
  "led_ctrl_uses_sysfs breathing_state \<and>
   (\<exists>s'. mce_hybris_indicator_set_pattern env_vanilla sample_flat 300 (- 5) 7 40 70000
            breathing_state = Some (True, s') \<and>
         led_ctrl_start sample_flat
           \<lparr>r = 255, g = 0, b = 7, on = 0, off = 0, level = 255, breathe = True\<rparr>
           breathing_state = Some s')"
proof -
  have h: "led_ctrl_uses_sysfs breathing_state" by code_simp
  have c: "led_ctrl_curr breathing_state =
      \<lparr>r = 255, g = 0, b = 0, on = 150, off = 150, level = 255, breathe = True\<rparr>"
    by code_simp
  from mce_hybris_indicator_set_pattern_sysfs
    [OF h, of env_vanilla sample_flat 300 "- 5" 7 40 70000] h c
  show ?thesis by simp
qed

subsection \<open>The initial request\<close>

lemma led_ctrl_curr_init_style:
  "led_request_get_style led_ctrl_curr_init = STYLE_OFF"
  by (simp add: led_request_get_style_def led_request_has_color_def led_ctrl_curr_init_def)

lemma led_ctrl_curr_init_not_equal:
  "0 \<le> r q \<or> 0 \<le> g q \<or> 0 \<le> b q \<Longrightarrow>
   \<not> led_request_is_equal led_ctrl_curr_init (led_request_sanitize q)"
  by (auto simp: led_request_is_equal_def led_ctrl_curr_init_def led_request_sanitize_def
      Let_def)

text \<open>
  C9: the initial current request has the channels -1, -1, -1. A sanitized request
  with channels in [0, 255] is never equal to it, so \<^verbatim>\<open>led_ctrl_start\<close> does not
  skip such a request while the current request is the initial one: it stores the
  request and, when no stop timer is pending, attaches one. The same holds for every
  request that \<^verbatim>\<open>mce_hybris_indicator_set_pattern\<close> submits.
\<close>

theorem led_ctrl_curr_init_first_request:
  "r led_ctrl_curr_init = - 1 \<and> g led_ctrl_curr_init = - 1 \<and> b led_ctrl_curr_init = - 1 \<and>
   (0 \<le> r q \<and> r q \<le> 255 \<and> 0 \<le> g q \<and> g q \<le> 255 \<and> 0 \<le> b q \<and> b q \<le> 255 \<longrightarrow>
      \<not> led_request_is_equal led_ctrl_curr_init (led_request_sanitize q) \<and>
      (led_ctrl_curr s = led_ctrl_curr_init \<and> led_ctrl_stop_id s = 0 \<longrightarrow>
         (\<exists>s'. led_ctrl_start sample q s = Some s' \<and> s' \<noteq> s \<and>
               led_ctrl_curr s' = led_request_sanitize q \<and>
               led_ctrl_stop_id s' = glib_next_id s \<and>
               (glib_next_id s, LED_CTRL_KERNEL_DELAY, CB_STOP) \<in> set (glib_sources s')))) \<and>
   (led_ctrl_uses_sysfs s \<and> led_ctrl_curr s = led_ctrl_curr_init \<longrightarrow>
      (\<exists>s'. mce_hybris_indicator_set_pattern env sample r0 g0 b0 ms_on ms_off s = Some (True, s') \<and>
            s' \<noteq> s \<and>
            \<not> led_request_is_equal led_ctrl_curr_init (led_ctrl_curr s')))"
proof (intro conjI impI)
  show "r led_ctrl_curr_init = - 1" "g led_ctrl_curr_init = - 1" "b led_ctrl_curr_init = - 1"
    by (simp_all add: led_ctrl_curr_init_def)
next
  assume rng: "0 \<le> r q \<and> r q \<le> 255 \<and> 0 \<le> g q \<and> g q \<le> 255 \<and> 0 \<le> b q \<and> b q \<le> 255"
  then show ne: "\<not> led_request_is_equal led_ctrl_curr_init (led_request_sanitize q)"
    by (intro led_ctrl_curr_init_not_equal) simp
  assume st: "led_ctrl_curr s = led_ctrl_curr_init \<and> led_ctrl_stop_id s = 0"
  from ne st have neq: "\<not> led_request_is_equal (led_ctrl_curr s) (led_request_sanitize q)"
    by simp
  from st have old: "led_request_get_style (led_ctrl_curr s) \<noteq> STYLE_BREATH"
    by (simp add: led_ctrl_curr_init_style)
  from st have stop: "led_ctrl_stop_id s = 0" by simp
  from led_ctrl_start_arms_stop [OF neq old stop, of sample]
  obtain s' where s': "led_ctrl_start sample q s = Some s'"
    "led_ctrl_curr s' = led_request_sanitize q"
    "led_ctrl_stop_id s' = glib_next_id s"
    "(glib_next_id s, LED_CTRL_KERNEL_DELAY, CB_STOP) \<in> set (glib_sources s')"
    by blast
  from neq s'(2) have "s' \<noteq> s" by (auto simp: led_request_is_equal_iff)
  with s' show "\<exists>s'. led_ctrl_start sample q s = Some s' \<and> s' \<noteq> s \<and>
               led_ctrl_curr s' = led_request_sanitize q \<and>
               led_ctrl_stop_id s' = glib_next_id s \<and>
               (glib_next_id s, LED_CTRL_KERNEL_DELAY, CB_STOP) \<in> set (glib_sources s')"
    by blast
next
  assume st: "led_ctrl_uses_sysfs s \<and> led_ctrl_curr s = led_ctrl_curr_init"
  let ?req = "(led_ctrl_curr s)\<lparr>r := max 0 (min 255 r0), g := max 0 (min 255 g0), b := max 0 (min 255 b0),
          on := (if max 0 (min 60000 ms_on) < 50 \<or> max 0 (min 60000 ms_off) < 50 then 0
                 else max 0 (min 60000 ms_on)),
          off := (if max 0 (min 60000 ms_on) < 50 \<or> max 0 (min 60000 ms_off) < 50 then 0
                  else max 0 (min 60000 ms_off))\<rparr>"
  from led_ctrl_start_effect [of sample ?req s] obtain s' where
    s': "led_ctrl_start sample ?req s = Some s'" "led_ctrl_curr s' = led_request_sanitize ?req"
    by blast
  have ne: "\<not> led_request_is_equal led_ctrl_curr_init (led_request_sanitize ?req)"
    by (intro led_ctrl_curr_init_not_equal) simp
  with s'(2) st have "s' \<noteq> s" by (auto simp: led_request_is_equal_iff)
  moreover from st s'(1)
  have "mce_hybris_indicator_set_pattern env sample r0 g0 b0 ms_on ms_off s = Some (True, s')"
    by (simp add: mce_hybris_indicator_set_pattern_start)
  ultimately show "\<exists>s'. mce_hybris_indicator_set_pattern env sample r0 g0 b0 ms_on ms_off s =
        Some (True, s') \<and> s' \<noteq> s \<and> \<not> led_request_is_equal led_ctrl_curr_init (led_ctrl_curr s')"
    using ne s'(2) by auto
qed

theorem led_ctrl_curr_init_first_request_witness:
  "\<not> led_request_is_equal led_ctrl_curr_init (led_request_sanitize
       \<lparr>r = 0, g = 0, b = 0, on = 0, off = 0, level = 255, breathe = False\<rparr>) \<and>
   (\<exists>s'. led_ctrl_start sample_flat
           \<lparr>r = 0, g = 0, b = 0, on = 0, off = 0, level = 255, breathe = False\<rparr>
           led_state_init = Some s' \<and> s' \<noteq> led_state_init \<and>
         led_ctrl_stop_id s' = 1 \<and> (1, 10, CB_STOP) \<in> set (glib_sources s')) \<and>
   (\<exists>s'. mce_hybris_indicator_set_pattern env_vanilla sample_flat 255 0 0 0 0
           (led_state_init\<lparr>led_ctrl_uses_sysfs := True\<rparr>) = Some (True, s') \<and>
         s' \<noteq> led_state_init\<lparr>led_ctrl_uses_sysfs := True\<rparr>)"
proof -
  let ?q = "\<lparr>r = 0, g = 0, b = 0, on = 0, off = 0, level = 255, breathe = False\<rparr>"
  let ?s1 = "led_state_init\<lparr>led_ctrl_uses_sysfs := True\<rparr>"
  have rng: "0 \<le> r ?q \<and> r ?q \<le> 255 \<and> 0 \<le> g ?q \<and> g ?q \<le> 255 \<and> 0 \<le> b ?q \<and> b ?q \<le> 255"
    by simp
  have st: "led_ctrl_curr led_state_init = led_ctrl_curr_init \<and> led_ctrl_stop_id led_state_init = 0"
    by (simp add: led_state_init_def)
  have nxt: "glib_next_id led_state_init = 1"
    by (simp add: led_state_init_def)
  have st1: "led_ctrl_uses_sysfs ?s1 \<and> led_ctrl_curr ?s1 = led_ctrl_curr_init"
    by (simp add: led_state_init_def)
  note a = led_ctrl_curr_init_first_request [of ?q led_state_init sample_flat]
  note b = led_ctrl_curr_init_first_request [of ?q ?s1 sample_flat env_vanilla 255 0 0 0 0]
  from a rng have 1: "\<not> led_request_is_equal led_ctrl_curr_init (led_request_sanitize ?q)"
    by blast
  from a rng st have "\<exists>s'. led_ctrl_start sample_flat ?q led_state_init = Some s' \<and>
      s' \<noteq> led_state_init \<and> led_ctrl_curr s' = led_request_sanitize ?q \<and>
      led_ctrl_stop_id s' = glib_next_id led_state_init \<and>
      (glib_next_id led_state_init, LED_CTRL_KERNEL_DELAY, CB_STOP) \<in> set (glib_sources s')"
    by blast
  then have 2: "\<exists>s'. led_ctrl_start sample_flat ?q led_state_init = Some s' \<and>
      s' \<noteq> led_state_init \<and> led_ctrl_stop_id s' = 1 \<and> (1, 10, CB_STOP) \<in> set (glib_sources s')"
    unfolding nxt led_consts by blast
  from b st1 have 3: "\<exists>s'. mce_hybris_indicator_set_pattern env_vanilla sample_flat 255 0 0 0 0
      ?s1 = Some (True, s') \<and> s' \<noteq> ?s1"
    by blast
  from 1 2 3 show ?thesis by blast
qed

subsection \<open>The step index of the curve\<close>

text \<open>The writes to the led change the log only.\<close>

lemma led_control_enable_frame [simp]:
  "led_ctrl_breathe (led_control_enable e s) = led_ctrl_breathe s"
  "glib_sources (led_control_enable e s) = glib_sources s"
  "led_control (led_control_enable e s) = led_control s"
  by (simp_all add: led_control_enable_def split: option.splits led_backend.splits)

lemma led_ctrl_set_rgb_blink_frame [simp]:
  "led_ctrl_breathe (led_ctrl_set_rgb_blink on_ms off_ms s) = led_ctrl_breathe s"
  "glib_sources (led_ctrl_set_rgb_blink on_ms off_ms s) = glib_sources s"
  by (simp_all add: led_ctrl_set_rgb_blink_def led_control_blink_def Let_def split: option.splits)

lemma led_ctrl_set_rgb_value_frame [simp]:
  "led_ctrl_breathe (led_ctrl_set_rgb_value rv gv bv s) = led_ctrl_breathe s"
  "glib_sources (led_ctrl_set_rgb_value rv gv bv s) = glib_sources s"
  by (simp_all add: led_ctrl_set_rgb_value_def led_control_value_def Let_def split: option.splits)

text \<open>
The invariant holds initially and every operation of the controller keeps it.
\<close>

lemma ramp_inv_cong:
  "led_ctrl_breathe s' = led_ctrl_breathe s \<Longrightarrow> glib_sources s' = glib_sources s \<Longrightarrow>
   ramp_inv s' = ramp_inv s"
  by (simp add: ramp_inv_def)

lemma ramp_inv_init: "ramp_inv led_state_init"
  by (simp add: ramp_inv_def led_state_init_def led_ctrl_breathe_init_def)

lemma ramp_inv_start:
  assumes "ramp_inv s" "led_ctrl_start sample next s = Some s'"
  shows "ramp_inv s'"
  using led_ctrl_start_effect [of sample "next" s] assms
  by (fastforce simp: ramp_inv_def)

lemma ramp_inv_remove: "ramp_inv s \<Longrightarrow> ramp_inv (g_source_remove tag s)"
  by (auto simp: ramp_inv_def g_source_remove_def)

lemma ramp_inv_stop_cb: "ramp_inv s \<Longrightarrow> ramp_inv (snd (led_ctrl_stop_cb s))"
  by (auto simp: ramp_inv_def led_ctrl_stop_cb_def Let_def g_timeout_add_def)

lemma ramp_inv_static_cb: "ramp_inv s \<Longrightarrow> ramp_inv (snd (led_ctrl_static_cb s))"
  by (auto simp: ramp_inv_def led_ctrl_static_cb_def Let_def)

lemma ramp_inv_step_cb:
  "ramp_inv s \<Longrightarrow> led_ctrl_step_cb s = Some (again, s') \<Longrightarrow> ramp_inv s'"
  by (auto simp: ramp_inv_def led_ctrl_step_cb_def Let_def split: if_splits)

lemma ramp_inv_dispatch:
  assumes "ramp_inv s" "glib_dispatch tag s = Some s'"
  shows "ramp_inv s'"
proof (cases "find (\<lambda>src. fst src = tag) (glib_sources s)")
  case None
  with assms show ?thesis by (simp add: glib_dispatch_def)
next
  case (Some src)
  obtain i iv cb where src: "src = (i, iv, cb)" by (cases src)
  show ?thesis
  proof (cases cb)
    case CB_STOP
    with assms Some src ramp_inv_stop_cb [OF assms(1)] show ?thesis
      by (cases "led_ctrl_stop_cb s")
        (auto simp: glib_dispatch_def run_cb_def ramp_inv_remove split: if_splits)
  next
    case CB_STATIC
    with assms Some src ramp_inv_static_cb [OF assms(1)] show ?thesis
      by (cases "led_ctrl_static_cb s")
        (auto simp: glib_dispatch_def run_cb_def ramp_inv_remove split: if_splits)
  next
    case CB_STEP
    with assms Some src show ?thesis
      by (auto simp: glib_dispatch_def run_cb_def ramp_inv_remove
          split: if_splits option.splits dest: ramp_inv_step_cb)
  qed
qed

lemma ramp_inv_quit: "ramp_inv s \<Longrightarrow> ramp_inv (mce_hybris_indicator_quit s)"
  by (auto simp: ramp_inv_def mce_hybris_indicator_quit_def Let_def g_source_remove_def
      led_control_close_def)

lemma ramp_inv_init_call:
  assumes "ramp_inv s" "mce_hybris_indicator_init env sample s = Some (ack, s')"
  shows "ramp_inv s'"
proof (cases "init_done s")
  case True
  with assms show ?thesis by (simp add: mce_hybris_indicator_init_def)
next
  case False
  define s1 where "s1 = s\<lparr>init_done := True, led_control := env_probe env,
      led_ctrl_uses_sysfs := (env_probe env \<noteq> None)\<rparr>"
  have "ramp_inv s1 = ramp_inv s" by (rule ramp_inv_cong) (simp_all add: s1_def)
  with assms(1) have s1: "ramp_inv s1" by simp
  show ?thesis
  proof (cases "env_probe env")
    case None
    with False assms(2) have "s' = s1 \<or> s' = s1\<lparr>dev_indicator := True, init_ack := True\<rparr>"
      by (auto simp: mce_hybris_indicator_init_def s1_def Let_def split: if_splits)
    moreover have "ramp_inv (s1\<lparr>dev_indicator := True, init_ack := True\<rparr>) = ramp_inv s1"
      by (rule ramp_inv_cong) simp_all
    ultimately show ?thesis using s1 by auto
  next
    case (Some be)
    with False assms(2) obtain s2 where
      s2: "led_ctrl_start sample ((led_ctrl_curr s1)\<lparr>r := 0, g := 0, b := 0\<rparr>) s1 = Some s2"
        "s' = s2\<lparr>init_ack := True\<rparr>"
      by (auto simp: mce_hybris_indicator_init_def s1_def Let_def split: option.splits)
    have "ramp_inv (s2\<lparr>init_ack := True\<rparr>) = ramp_inv s2"
      by (rule ramp_inv_cong) simp_all
    with ramp_inv_start [OF s1 s2(1)] s2(2) show ?thesis by simp
  qed
qed

lemma ramp_inv_set_pattern:
  assumes "ramp_inv s"
    "mce_hybris_indicator_set_pattern env sample r0 g0 b0 ms_on ms_off s = Some (ack, s')"
  shows "ramp_inv s'"
proof (cases "led_ctrl_uses_sysfs s")
  case True
  from assms(2) obtain req where "led_ctrl_start sample req s = Some s'"
    unfolding mce_hybris_indicator_set_pattern_start [OF True] by auto
  with assms(1) show ?thesis by (rule ramp_inv_start)
next
  case False
  from mce_hybris_indicator_set_pattern_fallback [OF False assms(2)]
  obtain ack1 where "mce_hybris_indicator_init env sample s = Some (ack1, s')" ..
  with assms(1) show ?thesis by (rule ramp_inv_init_call)
qed

lemma ramp_inv_enable_breathing:
  assumes "ramp_inv s" "mce_hybris_indicator_enable_breathing sample enable s = Some s'"
  shows "ramp_inv s'"
  using assms
  by (auto simp: mce_hybris_indicator_enable_breathing_def split: if_splits
      intro: ramp_inv_start)

lemma ramp_inv_set_brightness:
  assumes "ramp_inv s" "mce_hybris_indicator_set_brightness sample lvl s = Some (ack, s')"
  shows "ramp_inv s'"
  using assms
  by (auto simp: mce_hybris_indicator_set_brightness_def split: if_splits option.splits
      intro: ramp_inv_start)

lemma ramp_inv_event:
  assumes "ramp_inv s" "led_event_step sample ev s = Some s'"
  shows "ramp_inv s'"
proof (cases ev)
  case (EV_init env)
  with assms show ?thesis by (auto intro: ramp_inv_init_call)
next
  case EV_quit
  with assms show ?thesis by (auto intro: ramp_inv_quit)
next
  case (EV_set_pattern env r0 g0 b0 ms_on ms_off)
  with assms show ?thesis by (auto intro: ramp_inv_set_pattern)
next
  case (EV_enable_breathing enable)
  with assms show ?thesis by (auto intro: ramp_inv_enable_breathing)
next
  case (EV_set_brightness lvl)
  with assms show ?thesis by (auto intro: ramp_inv_set_brightness)
next
  case (EV_timeout tag)
  with assms show ?thesis by (auto intro: ramp_inv_dispatch)
qed

lemma ramp_inv_run:
  "ramp_inv s \<Longrightarrow> led_run sample s evs = Some s' \<Longrightarrow> ramp_inv s'"
proof (induction evs arbitrary: s)
  case Nil
  then show ?case by simp
next
  case (Cons ev evs)
  from Cons.prems(2) obtain s1 where
    s1: "led_event_step sample ev s = Some s1" "led_run sample s1 evs = Some s'"
    by (auto split: option.splits)
  from ramp_inv_event [OF Cons.prems(1) s1(1)] s1(2) show ?case
    by (rule Cons.IH)
qed

text \<open>
  C7, as stated, fails: the stored step index can exceed the stored step count. In
  the example run the curve has 15 steps; after 15 steps of the step timer the index is
  15, and a new breathing pattern of 140 ms on and 140 ms off regenerates the curve
  with 14 steps and leaves the index at 15.
\<close>

theorem led_ctrl_breathe_step_counterexample:
  "map_option ramp_index (led_run sample_flat led_state_init
     (breathing_run @ replicate 15 (EV_timeout 2) @
      [EV_set_pattern env_vanilla 255 0 0 140 140])) = Some (15, 14)"
  by code_simp

text \<open>
  C7, amended: in every state reached from the initial state by calls of the public
  functions and dispatches of pending timers, in which a step timer is pending, the
  step callback returns, and when it reads a sample (the step timer id is set) the
  index it reads, which is 0 if the stored index is not below the step count and the
  stored index otherwise, is below the step count, which is at most 256; afterwards
  the stored index is the index read plus one and at most the step count.
\<close>

theorem led_ctrl_step_cb_index:
  assumes "led_run sample led_state_init evs = Some s"
    and "(tag, interval, CB_STEP) \<in> set (glib_sources s)"
  shows "\<exists>again s'. led_ctrl_step_cb s = Some (again, s') \<and>
     (led_ctrl_step_id s \<noteq> 0 \<longrightarrow>
        (let i = (if steps (led_ctrl_breathe s) \<le> step (led_ctrl_breathe s) then 0
                  else step (led_ctrl_breathe s))
         in i < steps (led_ctrl_breathe s) \<and> steps (led_ctrl_breathe s) \<le> 256 \<and>
            steps (led_ctrl_breathe s') = steps (led_ctrl_breathe s) \<and>
            step (led_ctrl_breathe s') = Suc i \<and>
            step (led_ctrl_breathe s') \<le> steps (led_ctrl_breathe s')))"
proof -
  from ramp_inv_run [OF ramp_inv_init assms(1)] have inv: "ramp_inv s" .
  from assms(2) have "CB_STEP \<in> set (map (\<lambda>src. snd (snd src)) (glib_sources s))"
    by force
  with inv have st: "0 < steps (led_ctrl_breathe s)" "steps (led_ctrl_breathe s) \<le> 256"
    by (simp_all add: ramp_inv_def)
  show ?thesis
  proof (cases "led_ctrl_step_id s = 0")
    case True
    then show ?thesis by (auto simp: led_ctrl_step_cb_def)
  next
    case False
    with st show ?thesis
      by (auto simp: led_ctrl_step_cb_def Let_def led_consts)
  qed
qed

theorem led_ctrl_step_cb_index_witness:
  "led_run sample_flat led_state_init breathing_run = Some breathing_state \<and>
   (2, 20, CB_STEP) \<in> set (glib_sources breathing_state) \<and>
   led_ctrl_step_id breathing_state = 2 \<and>
   ramp_index breathing_state = (0, 15) \<and>
   map_option (\<lambda>res. ramp_index (snd res)) (led_ctrl_step_cb breathing_state) = Some (1, 15)"
proof -
  have src: "(2, 20, CB_STEP) \<in> set (glib_sources breathing_state)" by code_simp
  have id: "led_ctrl_step_id breathing_state = 2" by code_simp
  have idx: "ramp_index breathing_state = (0, 15)" by code_simp
  from led_ctrl_step_cb_index [OF breathing_run_state src] id idx
  have "map_option (\<lambda>res. ramp_index (snd res)) (led_ctrl_step_cb breathing_state) = Some (1, 15)"
    by (auto simp: ramp_index_def Let_def)
  with breathing_run_state src id idx show ?thesis by simp
qed

end
